theory Spec2Isabelle
  imports Complex_Main
begin

section \<open>JavaScript numbers\<close>

text \<open>
  The component computes with JavaScript numbers, which are IEEE 754 binary64 values. A
  number is modelled as a real, one of the two infinities, or NaN. Every arithmetic
  result is rounded as binary64 rounds it: to the nearest value with a 53-bit significand,
  ties to the even significand, with the exponent range of binary64 (subnormal results
  below \<open>2 powr - 1022\<close>, an infinity from \<open>2 ^ 1024\<close> on). The rules for the special
  values are written out (a zero divisor, infinity minus infinity, zero times infinity,
  comparisons with NaN). The two zeros of IEEE 754 are one value \<open>Fin 0\<close>, read as the
  positive zero.
\<close>

datatype jsnum = NaN | PInf | NInf | Fin real

text \<open>The integer nearest to \<open>y\<close>, the even one of the two when \<open>y\<close> lies halfway.\<close>

definition rne :: "real \<Rightarrow> int" where
  "rne y =
     (let n = \<lfloor>y\<rfloor>; d = y - of_int n
      in if d < 1 / 2 then n else if 1 / 2 < d then n + 1 else if even n then n else n + 1)"

text \<open>
  The binary exponent of \<open>x\<close>, not below the least exponent of binary64, and the spacing
  of the binary64 values at that exponent.
\<close>

definition exponent :: "real \<Rightarrow> int" where
  "exponent x = max \<lfloor>log 2 \<bar>x\<bar>\<rfloor> (- 1022)"

definition quantum :: "real \<Rightarrow> real" where
  "quantum x = 2 powr of_int (exponent x - 52)"

definition nearest :: "real \<Rightarrow> real" where
  "nearest x = (if x = 0 then 0 else of_int (rne (x / quantum x)) * quantum x)"

text \<open>The binary64 value of the exact result \<open>x\<close>.\<close>

definition js_round :: "real \<Rightarrow> jsnum" where
  "js_round x =
     (if 2 ^ 1024 \<le> nearest x then PInf
      else if nearest x \<le> - (2 ^ 1024) then NInf
      else Fin (nearest x))"

fun js_neg :: "jsnum \<Rightarrow> jsnum" where
  "js_neg NaN = NaN"
| "js_neg PInf = NInf"
| "js_neg NInf = PInf"
| "js_neg (Fin a) = Fin (- a)"

fun js_add :: "jsnum \<Rightarrow> jsnum \<Rightarrow> jsnum" where
  "js_add NaN _ = NaN"
| "js_add _ NaN = NaN"
| "js_add (Fin a) (Fin b) = js_round (a + b)"
| "js_add PInf NInf = NaN"
| "js_add NInf PInf = NaN"
| "js_add PInf _ = PInf"
| "js_add NInf _ = NInf"
| "js_add _ PInf = PInf"
| "js_add _ NInf = NInf"

definition js_sub :: "jsnum \<Rightarrow> jsnum \<Rightarrow> jsnum" where
  "js_sub a b = js_add a (js_neg b)"

fun js_mul :: "jsnum \<Rightarrow> jsnum \<Rightarrow> jsnum" where
  "js_mul NaN _ = NaN"
| "js_mul _ NaN = NaN"
| "js_mul (Fin a) (Fin b) = js_round (a * b)"
| "js_mul PInf (Fin b) = (if b = 0 then NaN else if 0 < b then PInf else NInf)"
| "js_mul NInf (Fin b) = (if b = 0 then NaN else if 0 < b then NInf else PInf)"
| "js_mul (Fin a) PInf = (if a = 0 then NaN else if 0 < a then PInf else NInf)"
| "js_mul (Fin a) NInf = (if a = 0 then NaN else if 0 < a then NInf else PInf)"
| "js_mul PInf PInf = PInf"
| "js_mul PInf NInf = NInf"
| "js_mul NInf PInf = NInf"
| "js_mul NInf NInf = PInf"

fun js_div :: "jsnum \<Rightarrow> jsnum \<Rightarrow> jsnum" where
  "js_div NaN _ = NaN"
| "js_div _ NaN = NaN"
| "js_div (Fin a) (Fin b) =
     (if b = 0 then (if a = 0 then NaN else if 0 < a then PInf else NInf)
      else js_round (a / b))"
| "js_div (Fin a) PInf = Fin 0"
| "js_div (Fin a) NInf = Fin 0"
| "js_div PInf (Fin b) = (if 0 \<le> b then PInf else NInf)"
| "js_div NInf (Fin b) = (if 0 \<le> b then NInf else PInf)"
| "js_div PInf PInf = NaN"
| "js_div PInf NInf = NaN"
| "js_div NInf PInf = NaN"
| "js_div NInf NInf = NaN"

fun js_lt :: "jsnum \<Rightarrow> jsnum \<Rightarrow> bool" where
  "js_lt NaN _ = False"
| "js_lt _ NaN = False"
| "js_lt (Fin a) (Fin b) = (a < b)"
| "js_lt NInf NInf = False"
| "js_lt NInf _ = True"
| "js_lt _ NInf = False"
| "js_lt PInf _ = False"
| "js_lt _ PInf = True"

definition js_gt :: "jsnum \<Rightarrow> jsnum \<Rightarrow> bool" where
  "js_gt a b = js_lt b a"

text \<open>Strict equality \<open>===\<close> on numbers: NaN equals nothing, itself included.\<close>

definition js_eq :: "jsnum \<Rightarrow> jsnum \<Rightarrow> bool" where
  "js_eq a b = (a \<noteq> NaN \<and> b \<noteq> NaN \<and> a = b)"

section \<open>Props, device and component state\<close>

text \<open>
  The props the handlers read. An optional prop is an \<open>option\<close>; \<open>hasRootElement\<close> and
  \<open>hasScrollView\<close> say whether \<open>rootElementRef?.current\<close> and \<open>scrollViewRef?.current\<close>
  are there.
\<close>

record Props =
  controls :: "bool option"
  autoplay :: "bool option"
  height :: "jsnum option"
  wantFullScreen :: "bool option"
  forwardBackwardButtons :: "bool option"
  rootViewBgColor :: "string option"
  androidPaddingVertical :: "jsnum option"
  hasRootElement :: bool
  hasScrollView :: bool

text \<open>
  What the component asks of the device: \<open>Dimensions.get('screen').width\<close>,
  \<open>Platform.OS === 'android'\<close> and \<open>DeviceInfo.hasNotch()\<close>.
\<close>

record Device =
  screen_width :: jsnum
  os_android :: bool
  has_notch :: bool

record VolumeStateProps =
  isMute :: bool
  volume :: "jsnum option"

record ScreenDimensionsObject =
  screenHeight :: jsnum
  screenWidth :: jsnum

record OnProgressData =
  currentTime :: jsnum
  playableDuration :: jsnum
  seekableDuration :: jsnum

text \<open>
  The value the slider hands to \<open>onValueChange\<close>: a number, or the array of its thumb
  values. The slider has at least one thumb, so the array holds at least one value:
  \<open>Thumbs v vs\<close> is the array \<open>v # vs\<close>, and \<open>val[0]\<close> is \<open>v\<close>. The empty array, whose
  \<open>val[0]\<close> is \<open>undefined\<close>, is not a value of this type.
\<close>

datatype slider_value = Scalar jsnum | Thumbs jsnum "jsnum list"

text \<open>
  The three timer callbacks of the component: hiding the controls (3000 ms), resuming
  playback after the seek to 0 (100 ms), locking to portrait after leaving full screen
  (100 ms).
\<close>

datatype timer_callback = HideControls | ResumePlaying | LockPortrait

record timer =
  handle :: nat
  delay :: nat
  callback :: timer_callback

text \<open>Calls into the collaborators, in the order they are made.\<close>

datatype effect =
    Seek jsnum
  | ImmersiveOn
  | ImmersiveOff
  | LockToLandscape
  | LockToPortrait
  | RemoveVolumeListener
  | RemoveDimensionsListener
  | RootStyle string "jsnum option"
  | ScrollEnabled
  | ScrollFillDisabled
  | ScrollToOrigin

text \<open>
  The state hooks of \<open>VideoPlayer\<close>, the ref \<open>hideControlsTimer\<close>, and the environment
  the handlers act on: the liveness flag \<open>isActive\<close> of the mount effect, the two
  subscriptions, the timers that are pending, the next timer handle, and the calls made.
\<close>

record Player =
  screenDimensions :: ScreenDimensionsObject
  isRetry :: bool
  isStatusBarHidden :: bool
  isLoading :: bool
  isFullScreen :: bool
  isPlaying :: bool
  isVideoReady :: bool
  videoDuration :: jsnum
  videoSeek :: jsnum
  showControls :: bool
  isSeekBarBusy :: bool
  systemVolume :: "jsnum option"
  volumeState :: VolumeStateProps
  hideControlsTimer :: "nat option"
  isActive :: bool
  volumeListener :: bool
  dimensionsListener :: bool
  pending :: "timer list"
  nextHandle :: nat
  effects :: "effect list"

text \<open>The \<open>volumeState\<close> of the first render.\<close>

definition initialVolumeState :: VolumeStateProps where
  "initialVolumeState = \<lparr>isMute = False, volume = None\<rparr>"

text \<open>
  The first render followed by the mount effect, which subscribes to volume and
  dimension changes. Timer handles start at 1, so that every handle is truthy.
\<close>

definition mount :: "Props \<Rightarrow> Device \<Rightarrow> Player" where
  "mount p d =
     \<lparr>screenDimensions =
        \<lparr>screenHeight = (case height p of None \<Rightarrow> Fin 300 | Some h \<Rightarrow> h),
         screenWidth = screen_width d\<rparr>,
      isRetry = False,
      isStatusBarHidden = False,
      isLoading = True,
      isFullScreen = False,
      isPlaying = (case autoplay p of None \<Rightarrow> True | Some a \<Rightarrow> a),
      isVideoReady = False,
      videoDuration = Fin 0,
      videoSeek = Fin 0,
      showControls = False,
      isSeekBarBusy = False,
      systemVolume = None,
      volumeState = initialVolumeState,
      hideControlsTimer = None,
      isActive = True,
      volumeListener = True,
      dimensionsListener = True,
      pending = [],
      nextHandle = 1,
      effects = []\<rparr>"

section \<open>Timers, the decoder ref and the props passed to the decoder\<close>

definition emit :: "effect \<Rightarrow> Player \<Rightarrow> Player" where
  "emit e s = s\<lparr>effects := effects s @ [e]\<rparr>"

text \<open>\<open>setTimeout\<close> returns the new handle; \<open>clearTimeout\<close> of a handle that is not pending does nothing.\<close>

definition setTimeout :: "timer_callback \<Rightarrow> nat \<Rightarrow> Player \<Rightarrow> nat \<times> Player" where
  "setTimeout c ms s =
     (nextHandle s,
      s\<lparr>pending := pending s @ [\<lparr>handle = nextHandle s, delay = ms, callback = c\<rparr>],
        nextHandle := nextHandle s + 1\<rparr>)"

definition clearTimeout :: "nat \<Rightarrow> Player \<Rightarrow> Player" where
  "clearTimeout h s = s\<lparr>pending := filter (\<lambda>t. handle t \<noteq> h) (pending s)\<rparr>"

text \<open>\<open>if (hideControlsTimer.current)\<close>: the ref holds a handle and the handle is not 0.\<close>

definition timerSet :: "Player \<Rightarrow> bool" where
  "timerSet s = (case hideControlsTimer s of None \<Rightarrow> False | Some h \<Rightarrow> h \<noteq> 0)"

text \<open>\<open>clearTimeout(hideControlsTimer.current)\<close>; the ref keeps the handle.\<close>

definition clearHideControlsTimer :: "Player \<Rightarrow> Player" where
  "clearHideControlsTimer s =
     (case hideControlsTimer s of None \<Rightarrow> s | Some h \<Rightarrow> clearTimeout h s)"

text \<open>
  \<open>hideControlsTimer.current = setTimeout(() => setShowControls(false), 3000)\<close>.
\<close>

definition armHideControlsTimer :: "Player \<Rightarrow> Player" where
  "armHideControlsTimer s =
     (case setTimeout HideControls 3000 s of (h, s') \<Rightarrow> s'\<lparr>hideControlsTimer := Some h\<rparr>)"

text \<open>
  \<open>playerRef.current\<close> is the mounted \<open>Video\<close>. The component renders \<open>Video\<close> in every
  render but the retry prompt, so the ref is there exactly when \<open>isRetry\<close> is false.
\<close>

definition playerRef :: "Player \<Rightarrow> bool" where
  "playerRef s = (\<not> isRetry s)"

text \<open>\<open>playerRef.current?.seek(t)\<close>.\<close>

definition seek :: "jsnum \<Rightarrow> Player \<Rightarrow> Player" where
  "seek t s = (if playerRef s then emit (Seek t) s else s)"

text \<open>The props \<open>paused\<close>, \<open>muted\<close> and \<open>volume\<close> of \<open>Video\<close>.\<close>

definition decoderPaused :: "Player \<Rightarrow> bool" where
  "decoderPaused s = (\<not> isPlaying s)"

definition decoderMuted :: "Player \<Rightarrow> bool" where
  "decoderMuted s = isMute (volumeState s)"

definition decoderVolume :: "Player \<Rightarrow> jsnum" where
  "decoderVolume s = (case volume (volumeState s) of None \<Rightarrow> Fin 0 | Some v \<Rightarrow> v)"

text \<open>A truthy optional boolean prop, as in \<open>if (controls)\<close>.\<close>

definition truthy :: "bool option \<Rightarrow> bool" where
  "truthy b = (case b of None \<Rightarrow> False | Some v \<Rightarrow> v)"

section \<open>The mount effect: volume, dimensions, cleanup\<close>

text \<open>
  The effect has the dependency list \<open>[]\<close>: it runs once, after the first render, and its
  callbacks close over the \<open>volumeState\<close> of that render. So
  \<open>{...volumeState, volume: volume}\<close> in them spreads \<open>initialVolumeState\<close>, whatever the
  state is when the callback runs.
\<close>

text \<open>\<open>SystemSetting.getVolume().then(...)\<close> of the mount effect, resolved with \<open>v\<close>.\<close>

definition onGetVolume :: "jsnum \<Rightarrow> Player \<Rightarrow> Player" where
  "onGetVolume v s =
     (if isActive s
      then s\<lparr>systemVolume := Some v, volumeState := initialVolumeState\<lparr>volume := Some v\<rparr>\<rparr>
      else s)"

text \<open>The callback given to \<open>SystemSetting.addVolumeListener\<close>, called with \<open>data.value = v\<close>.\<close>

definition onVolumeChange :: "jsnum \<Rightarrow> Player \<Rightarrow> Player" where
  "onVolumeChange v s = s\<lparr>volumeState := initialVolumeState\<lparr>volume := Some v\<rparr>\<rparr>"

definition rootSetStyle :: "Props \<Rightarrow> string \<Rightarrow> jsnum option \<Rightarrow> Player \<Rightarrow> Player" where
  "rootSetStyle p bg pad s = (if hasRootElement p then emit (RootStyle bg pad) s else s)"

definition scrollCall :: "Props \<Rightarrow> effect \<Rightarrow> Player \<Rightarrow> Player" where
  "scrollCall p e s = (if hasScrollView p then emit e s else s)"

text \<open>
  The callback given to \<open>Dimensions.addEventListener('change', ...)\<close>, called with
  \<open>e.screen = {width: w, height: h}\<close>.
\<close>

definition onDimensionsChange :: "Props \<Rightarrow> Device \<Rightarrow> jsnum \<Rightarrow> jsnum \<Rightarrow> Player \<Rightarrow> Player" where
  "onDimensionsChange p d w h s =
     (let portrait = js_gt h w;
          s1 = (if portrait
                then scrollCall p ScrollEnabled
                       (rootSetStyle p
                          (case rootViewBgColor p of None \<Rightarrow> ''#fff'' | Some c \<Rightarrow> c)
                          (if os_android d
                           then Some (case androidPaddingVertical p of None \<Rightarrow> Fin 48 | Some a \<Rightarrow> a)
                           else None)
                          s)
                else rootSetStyle p
                       (case rootViewBgColor p of None \<Rightarrow> ''#000'' | Some c \<Rightarrow> c)
                       (if os_android d then Some (Fin 0) else None)
                       (scrollCall p ScrollToOrigin (scrollCall p ScrollFillDisabled s)));
          finalHeight = (if portrait
                         then (case height p of None \<Rightarrow> Fin 300 | Some c \<Rightarrow> c)
                         else h);
          finalWidth = (if \<not> portrait \<and> has_notch d then js_sub w (Fin 75) else w)
      in if isActive s
         then s1\<lparr>screenDimensions := \<lparr>screenHeight = finalHeight, screenWidth = finalWidth\<rparr>\<rparr>
         else s1)"

text \<open>The function the mount effect returns, run when the component unmounts.\<close>

definition cleanup :: "Player \<Rightarrow> Player" where
  "cleanup s =
     (let s1 = s\<lparr>isActive := False\<rparr>;
          s2 = emit RemoveVolumeListener (s1\<lparr>volumeListener := False\<rparr>);
          s3 = (if timerSet s2 then clearHideControlsTimer s2 else s2)
      in emit RemoveDimensionsListener (s3\<lparr>dimensionsListener := False\<rparr>))"

section \<open>The handlers\<close>

definition onVideoError :: "Player \<Rightarrow> Player" where
  "onVideoError s = s\<lparr>isRetry := True\<rparr>"

definition handlePlayPause :: "Player \<Rightarrow> Player" where
  "handlePlayPause s =
     (if js_eq (videoSeek s) (Fin 1)
      then snd (setTimeout ResumePlaying 100 (seek (Fin 0) (s\<lparr>videoSeek := Fin 0\<rparr>)))
      else s\<lparr>isPlaying := \<not> isPlaying s\<rparr>)"

definition handleFullScreen :: "Player \<Rightarrow> Player" where
  "handleFullScreen s =
     (if isFullScreen s
      then snd (setTimeout LockPortrait 100
                  ((emit ImmersiveOff s)\<lparr>isFullScreen := False, isStatusBarHidden := False\<rparr>))
      else emit ImmersiveOn
             ((emit LockToLandscape (s\<lparr>isFullScreen := True\<rparr>))\<lparr>isStatusBarHidden := True\<rparr>))"

definition onProgress :: "OnProgressData \<Rightarrow> Player \<Rightarrow> Player" where
  "onProgress data s =
     (let s1 = (if isLoading s then s\<lparr>isLoading := False\<rparr> else s)
      in if \<not> isSeekBarBusy s
         then s1\<lparr>videoSeek := js_div (currentTime data) (seekableDuration data)\<rparr>
         else s1)"

definition onEnd :: "Player \<Rightarrow> Player" where
  "onEnd s = s\<lparr>videoSeek := Fin 1, isPlaying := False\<rparr>"

text \<open>
  \<open>justClicked\<close> is a local of the render, \<open>false\<close> when a handler starts; the handler
  sets it and resets it before it returns.
\<close>

definition justClicked :: bool where
  "justClicked = False"

definition videoAreaClicked :: "Props \<Rightarrow> Player \<Rightarrow> Player" where
  "videoAreaClicked p s =
     (if truthy (controls p)
      then (if \<not> justClicked
            then (if showControls s = False
                  then (let s1 = s\<lparr>showControls := True\<rparr>;
                            s2 = (if timerSet s1 then clearHideControlsTimer s1 else s1)
                        in armHideControlsTimer s2)
                  else s\<lparr>showControls := False\<rparr>)
            else s)
      else s)"

definition onSeekBarChange :: "slider_value \<Rightarrow> Player \<Rightarrow> Player" where
  "onSeekBarChange val s =
     (case val of
        Scalar _ \<Rightarrow> s
      | Thumbs v _ \<Rightarrow> (seek (js_mul v (videoDuration s)) s)\<lparr>videoSeek := v\<rparr>)"

text \<open>\<open>onLoad\<close>, called with \<open>data.duration = dur\<close>.\<close>

definition onLoad :: "jsnum \<Rightarrow> Player \<Rightarrow> Player" where
  "onLoad dur s = seek (Fin 0) (s\<lparr>videoDuration := dur\<rparr>)"

definition onTouchStart :: "Props \<Rightarrow> Player \<Rightarrow> Player" where
  "onTouchStart p s =
     (if timerSet s
      then (if truthy (controls p) then clearHideControlsTimer s else s)
      else s)"

definition onTouchEnd :: "Props \<Rightarrow> Player \<Rightarrow> Player" where
  "onTouchEnd p s = (if truthy (controls p) then armHideControlsTimer s else s)"

definition onSeekBarSlidingStart :: "Player \<Rightarrow> Player" where
  "onSeekBarSlidingStart s = s\<lparr>isSeekBarBusy := True\<rparr>"

definition onSeekBarSlidingEnd :: "Player \<Rightarrow> Player" where
  "onSeekBarSlidingEnd s = s\<lparr>isSeekBarBusy := False\<rparr>"

definition seekForward :: "Player \<Rightarrow> Player" where
  "seekForward s =
     (let newCurrentTime = js_add (js_mul (videoSeek s) (videoDuration s)) (Fin 10);
          newCurrentSeekValue = js_div newCurrentTime (videoDuration s)
      in if js_gt newCurrentTime (videoDuration s)
         then (seek (videoDuration s) s)\<lparr>videoSeek := videoDuration s\<rparr>
         else (seek newCurrentTime s)\<lparr>videoSeek := newCurrentSeekValue\<rparr>)"

text \<open>
  The time \<open>seekForward\<close> computes before it clamps, \<open>videoSeek * videoDuration + 10\<close>, and
  its test \<open>newCurrentTime > videoDuration\<close>.
\<close>

definition forwardTime :: "Player \<Rightarrow> jsnum" where
  "forwardTime s = js_add (js_mul (videoSeek s) (videoDuration s)) (Fin 10)"

definition forwardClamped :: "Player \<Rightarrow> bool" where
  "forwardClamped s = js_gt (forwardTime s) (videoDuration s)"

definition seekBackward :: "Player \<Rightarrow> Player" where
  "seekBackward s =
     (let newCurrentTime = js_sub (js_mul (videoSeek s) (videoDuration s)) (Fin 10);
          newCurrentSeekValue = js_div newCurrentTime (videoDuration s)
      in if js_lt newCurrentTime (Fin 0)
         then (seek (Fin 0) s)\<lparr>videoSeek := Fin 0\<rparr>
         else (seek newCurrentTime s)\<lparr>videoSeek := newCurrentSeekValue\<rparr>)"

definition toggleMuteButton :: "Player \<Rightarrow> Player" where
  "toggleMuteButton s =
     (if \<not> isMute (volumeState s)
      then s\<lparr>volumeState :=
               (volumeState s)\<lparr>isMute := \<not> isMute (volumeState s), volume := Some (Fin 0)\<rparr>\<rparr>
      else s\<lparr>volumeState :=
               (volumeState s)\<lparr>isMute := \<not> isMute (volumeState s), volume := systemVolume s\<rparr>\<rparr>)"

definition onReady :: "Player \<Rightarrow> Player" where
  "onReady s = armHideControlsTimer (s\<lparr>isVideoReady := True, showControls := True\<rparr>)"

text \<open>\<open>onBuffer\<close>, called with \<open>data.isBuffering = b\<close>.\<close>

definition onBuffer :: "bool \<Rightarrow> Player \<Rightarrow> Player" where
  "onBuffer b s =
     (if (b \<and> \<not> isLoading s) \<or> (\<not> b \<and> isLoading s \<and> isVideoReady s)
      then s\<lparr>isLoading := True\<rparr>
      else s)"

definition onRetryClick :: "Player \<Rightarrow> Player" where
  "onRetryClick s = s\<lparr>isRetry := False\<rparr>"

section \<open>Timers that fire\<close>

definition runCallback :: "timer_callback \<Rightarrow> Player \<Rightarrow> Player" where
  "runCallback c s =
     (case c of
        HideControls \<Rightarrow> s\<lparr>showControls := False\<rparr>
      | ResumePlaying \<Rightarrow> s\<lparr>isPlaying := True\<rparr>
      | LockPortrait \<Rightarrow> emit LockToPortrait s)"

text \<open>
  The pending timer with handle \<open>h\<close> fires: it leaves the pending ones and its callback
  runs. No callback consults \<open>isActive\<close>, so it runs after the unmount as before it.
\<close>

definition fire :: "nat \<Rightarrow> Player \<Rightarrow> Player" where
  "fire h s =
     (case find (\<lambda>t. handle t = h) (pending s) of
        None \<Rightarrow> s
      | Some t \<Rightarrow> runCallback (callback t) (clearTimeout h s))"

text \<open>The hide timers that are pending.\<close>

definition hideTimers :: "Player \<Rightarrow> timer list" where
  "hideTimers s = filter (\<lambda>t. callback t = HideControls) (pending s)"

section \<open>Events\<close>

text \<open>
  What can reach the component: the resolution of the \<open>getVolume\<close> promise of the mount
  effect, the two subscriptions, the unmount, a timer that fires, the events of \<open>Video\<close>,
  and the presses and touches on what is rendered. The focus effect, which reads the
  volume again when the screen gains focus, and the time strings of \<open>msToTime\<close> are left
  out.
\<close>

datatype event =
    GetVolumeResolved jsnum
  | VolumeChanged jsnum
  | DimensionsChanged jsnum jsnum
  | Unmounted
  | TimerFired nat
  | VideoError
  | Loaded jsnum
  | ReadyForDisplay
  | Progress OnProgressData
  | Ended
  | Buffering bool
  | VideoAreaPress
  | RetryPress
  | PlayPausePress
  | ForwardPress
  | BackwardPress
  | ControlsTouchStart
  | ControlsTouchEnd
  | SeekBarChange slider_value
  | SlidingStart
  | SlidingComplete
  | MutePress
  | FullScreenPress

text \<open>
  What is rendered decides which events can arrive. The retry prompt is rendered when
  \<open>isRetry\<close>, \<open>Video\<close> and the pressable video area otherwise, and the controls when
  moreover \<open>controls && showControls\<close>. The component is mounted as long as \<open>isActive\<close>.
\<close>

definition videoRendered :: "Player \<Rightarrow> bool" where
  "videoRendered s = (isActive s \<and> \<not> isRetry s)"

definition controlsRendered :: "Props \<Rightarrow> Player \<Rightarrow> bool" where
  "controlsRendered p s = (videoRendered s \<and> truthy (controls p) \<and> showControls s)"

fun enabled :: "Props \<Rightarrow> Player \<Rightarrow> event \<Rightarrow> bool" where
  "enabled p s (GetVolumeResolved v) = True"
| "enabled p s (VolumeChanged v) = volumeListener s"
| "enabled p s (DimensionsChanged w h) = dimensionsListener s"
| "enabled p s Unmounted = isActive s"
| "enabled p s (TimerFired h) = (find (\<lambda>t. handle t = h) (pending s) \<noteq> None)"
| "enabled p s VideoError = videoRendered s"
| "enabled p s (Loaded dur) = videoRendered s"
| "enabled p s ReadyForDisplay = videoRendered s"
| "enabled p s (Progress data) = videoRendered s"
| "enabled p s Ended = videoRendered s"
| "enabled p s (Buffering b) = videoRendered s"
| "enabled p s VideoAreaPress = videoRendered s"
| "enabled p s RetryPress = (isActive s \<and> isRetry s)"
| "enabled p s PlayPausePress = controlsRendered p s"
| "enabled p s ForwardPress =
     (controlsRendered p s \<and> (case forwardBackwardButtons p of None \<Rightarrow> True | Some b \<Rightarrow> b))"
| "enabled p s BackwardPress =
     (controlsRendered p s \<and> (case forwardBackwardButtons p of None \<Rightarrow> True | Some b \<Rightarrow> b))"
| "enabled p s ControlsTouchStart = controlsRendered p s"
| "enabled p s ControlsTouchEnd = controlsRendered p s"
| "enabled p s (SeekBarChange val) = controlsRendered p s"
| "enabled p s SlidingStart = controlsRendered p s"
| "enabled p s SlidingComplete = controlsRendered p s"
| "enabled p s MutePress = controlsRendered p s"
| "enabled p s FullScreenPress =
     (controlsRendered p s \<and> (case wantFullScreen p of None \<Rightarrow> True | Some b \<Rightarrow> b))"

fun handler :: "Props \<Rightarrow> Device \<Rightarrow> event \<Rightarrow> Player \<Rightarrow> Player" where
  "handler p d (GetVolumeResolved v) s = onGetVolume v s"
| "handler p d (VolumeChanged v) s = onVolumeChange v s"
| "handler p d (DimensionsChanged w h) s = onDimensionsChange p d w h s"
| "handler p d Unmounted s = cleanup s"
| "handler p d (TimerFired h) s = fire h s"
| "handler p d VideoError s = onVideoError s"
| "handler p d (Loaded dur) s = onLoad dur s"
| "handler p d ReadyForDisplay s = onReady s"
| "handler p d (Progress data) s = onProgress data s"
| "handler p d Ended s = onEnd s"
| "handler p d (Buffering b) s = onBuffer b s"
| "handler p d VideoAreaPress s = videoAreaClicked p s"
| "handler p d RetryPress s = onRetryClick s"
| "handler p d PlayPausePress s = handlePlayPause s"
| "handler p d ForwardPress s = seekForward s"
| "handler p d BackwardPress s = seekBackward s"
| "handler p d ControlsTouchStart s = onTouchStart p s"
| "handler p d ControlsTouchEnd s = onTouchEnd p s"
| "handler p d (SeekBarChange val) s = onSeekBarChange val s"
| "handler p d SlidingStart s = onSeekBarSlidingStart s"
| "handler p d SlidingComplete s = onSeekBarSlidingEnd s"
| "handler p d MutePress s = toggleMuteButton s"
| "handler p d FullScreenPress s = handleFullScreen s"

definition dispatch :: "Props \<Rightarrow> Device \<Rightarrow> Player \<Rightarrow> event \<Rightarrow> Player" where
  "dispatch p d s e = (if enabled p s e then handler p d e s else s)"

text \<open>
  The state after the events \<open>es\<close>. A render separates two events, so each handler reads
  the state the event before it left.
\<close>

definition run :: "Props \<Rightarrow> Device \<Rightarrow> event list \<Rightarrow> Player" where
  "run p d es = foldl (dispatch p d) (mount p d) es"

text \<open>A player with the controls enabled and every other prop left out, on a plain phone.\<close>

definition withControls :: Props where
  "withControls =
     \<lparr>controls = Some True, autoplay = None, height = None, wantFullScreen = None,
      forwardBackwardButtons = None, rootViewBgColor = None, androidPaddingVertical = None,
      hasRootElement = False, hasScrollView = False\<rparr>"

definition phone :: Device where
  "phone = \<lparr>screen_width = Fin 400, os_android = True, has_notch = False\<rparr>"

text \<open>
  A player that has loaded 120 seconds of media, shown its first frame and played half
  of it.
\<close>

definition halfway :: Player where
  "halfway =
     run withControls phone
       [Loaded (Fin 120), ReadyForDisplay,
        Progress \<lparr>currentTime = Fin 60, playableDuration = Fin 120, seekableDuration = Fin 120\<rparr>]"

text \<open>The same media before any progress: loaded, first frame shown, playhead at 0.\<close>

definition loaded :: Player where
  "loaded = run withControls phone [Loaded (Fin 120), ReadyForDisplay]"

text \<open>The same media played to its end, and then the play button pressed.\<close>

definition ended :: Player where
  "ended = run withControls phone [Loaded (Fin 120), ReadyForDisplay, Ended]"

definition replaying :: Player where
  "replaying = run withControls phone [Loaded (Fin 120), ReadyForDisplay, Ended, PlayPausePress]"

text \<open>Every pending timer has a handle below the next one to be handed out.\<close>

definition fresh :: "Player \<Rightarrow> bool" where
  "fresh s = list_all (\<lambda>t. handle t < nextHandle s) (pending s)"

section \<open>Rounding\<close>

lemma rne_error: "\<bar>of_int (rne y) - y\<bar> \<le> 1 / 2"
  unfolding rne_def Let_def by (auto; linarith)

lemma rne_of_int: "rne (of_int n) = n"
  by (simp add: rne_def)

lemma quantum_pos: "0 < quantum x"
  by (simp add: quantum_def)

lemma floor_log_le: 
  assumes "x \<noteq> 0" shows "2 powr of_int \<lfloor>log 2 \<bar>x\<bar>\<rfloor> \<le> \<bar>x\<bar>"
proof -
  have "2 powr of_int \<lfloor>log 2 \<bar>x\<bar>\<rfloor> \<le> 2 powr log 2 \<bar>x\<bar>"
    by (rule powr_mono) simp_all
  also have "\<dots> = \<bar>x\<bar>" using assms by simp
  finally show ?thesis .
qed

lemma quantum_le:
  assumes "x \<noteq> 0"
  shows "quantum x \<le> \<bar>x\<bar> / 2 ^ 52 + 1 / 2 ^ 1074"
proof (cases "- 1022 \<le> \<lfloor>log 2 \<bar>x\<bar>\<rfloor>")
  case True
  then have "exponent x = \<lfloor>log 2 \<bar>x\<bar>\<rfloor>"
    unfolding exponent_def by (rule max_absorb1)
  then have "quantum x = 2 powr (of_int \<lfloor>log 2 \<bar>x\<bar>\<rfloor> - 52)"
    by (simp only: quantum_def of_int_diff of_int_numeral)
  also have "\<dots> = 2 powr of_int \<lfloor>log 2 \<bar>x\<bar>\<rfloor> / 2 ^ 52"
    by (simp add: powr_diff)
  also have "\<dots> \<le> \<bar>x\<bar> / 2 ^ 52"
    using floor_log_le [OF assms] by (simp add: divide_right_mono)
  finally have "quantum x \<le> \<bar>x\<bar> / 2 ^ 52" .
  moreover have "(0::real) \<le> 1 / 2 ^ 1074" by simp
  ultimately show ?thesis by linarith
next
  case False
  then have "exponent x = - 1022"
    unfolding exponent_def by (intro max_absorb2) linarith
  then have "quantum x = 2 powr (- 1074)"
    by (simp add: quantum_def)
  also have "\<dots> = 1 / 2 ^ 1074"
    by (simp add: powr_minus_divide)
  finally have "quantum x = 1 / 2 ^ 1074" .
  moreover have "0 \<le> \<bar>x\<bar> / 2 ^ 52" by simp
  ultimately show ?thesis by linarith
qed

lemma nearest_error: "\<bar>nearest x - x\<bar> \<le> \<bar>x\<bar> / 2 ^ 53 + 1 / 2 ^ 1075"
proof (cases "x = 0")
  case True
  then show ?thesis by (simp add: nearest_def)
next
  case False
  define q where "q = quantum x"
  have q: "0 < q" by (simp add: q_def quantum_pos)
  have "nearest x - x = (of_int (rne (x / q)) - x / q) * q"
    using False q by (simp add: nearest_def q_def field_simps)
  then have "\<bar>nearest x - x\<bar> = \<bar>of_int (rne (x / q)) - x / q\<bar> * q"
    using q by (simp add: abs_mult)
  also have "\<dots> \<le> 1 / 2 * q"
    using rne_error [of "x / q"] q by (intro mult_right_mono) simp_all
  also have "\<dots> \<le> 1 / 2 * (\<bar>x\<bar> / 2 ^ 52 + 1 / 2 ^ 1074)"
    using quantum_le [OF False] by (simp add: q_def)
  also have "\<dots> = \<bar>x\<bar> / 2 ^ 53 + 1 / 2 ^ 1075"
    by simp
  finally show ?thesis .
qed


lemma nearest_grid: "x / quantum x = of_int n \<Longrightarrow> nearest x = x"
proof -
  assume g: "x / quantum x = of_int n"
  have q: "quantum x \<noteq> 0" using quantum_pos [of x] by simp
  have "of_int n * quantum x = x"
    using g q by (simp add: field_simps)
  then show ?thesis
    using g by (simp add: nearest_def rne_of_int)
qed

lemma exponent_less:
  assumes "x \<noteq> 0" and "\<bar>x\<bar> < 2 powr of_int j" and "- 1021 \<le> j"
  shows "exponent x < j"
proof -
  have "log 2 \<bar>x\<bar> < of_int j"
    using assms by (simp add: log_less_iff)
  then have "\<lfloor>log 2 \<bar>x\<bar>\<rfloor> < j"
    by (simp add: floor_less_iff)
  then show ?thesis
    using assms(3) by (simp add: exponent_def)
qed

lemma nearest_dyadic:
  assumes m: "\<bar>m\<bar> < 2 ^ 53" and k: "k \<le> 1074"
  shows "nearest (of_int m / 2 ^ k) = of_int m / 2 ^ k"
proof (cases "m = 0")
  case True
  then show ?thesis by (simp add: nearest_def)
next
  case False
  define x :: real where "x = of_int m / 2 ^ k"
  have x0: "x \<noteq> 0"
    using False by (simp add: x_def)
  have "\<bar>x\<bar> = of_int \<bar>m\<bar> / 2 ^ k"
    by (simp add: x_def)
  also have "\<dots> < 2 ^ 53 / 2 ^ k"
  proof -
    have "(of_int \<bar>m\<bar> :: real) < of_int (2 ^ 53)"
      using m by (simp only: of_int_less_iff)
    then show ?thesis by (simp add: divide_strict_right_mono)
  qed
  also have "\<dots> = 2 powr of_int (53 - int k)"
    by (simp add: powr_diff powr_realpow)
  finally have "exponent x < 53 - int k"
    using x0 k by (intro exponent_less) simp_all
  then have small: "exponent x \<le> 52 - int k" by simp
  define n where "n = nat (52 - int k - exponent x)"
  have n: "exponent x - 52 = - int k - int n"
    using small by (simp add: n_def)
  have "quantum x = 2 powr (- real k - real n)"
    by (simp add: quantum_def n)
  also have "\<dots> = 1 / (2 ^ k * 2 ^ n)"
    by (simp add: powr_diff powr_minus_divide powr_realpow)
  finally have "x / quantum x = of_int (m * 2 ^ n)"
    by (simp add: x_def)
  then show ?thesis
    unfolding x_def [symmetric] by (rule nearest_grid)
qed

text \<open>An exact result of moderate size is rounded to a finite number close to it.\<close>

lemma js_round_finite:
  assumes "\<bar>x\<bar> \<le> 2 ^ 1023 + 2 ^ 1022"
  shows "js_round x = Fin (nearest x)"
proof -
  have "\<bar>nearest x\<bar> \<le> \<bar>x\<bar> + (\<bar>x\<bar> / 2 ^ 53 + 1 / 2 ^ 1075)"
    using nearest_error [of x] by linarith
  also have "\<dots> < 2 ^ 1024"
    using assms by simp
  finally have "\<bar>nearest x\<bar> < 2 ^ 1024" .
  then show ?thesis
    by (simp add: js_round_def abs_less_iff not_le)
qed

text \<open>
  Rounding keeps a result on its side of every binary64 value: a result that does not
  exceed a binary64 value \<open>D\<close> is not rounded beyond \<open>D\<close>.
\<close>

lemma rne_le: "y \<le> of_int N \<Longrightarrow> rne y \<le> N"
proof -
  assume le: "y \<le> of_int N"
  have fl: "\<lfloor>y\<rfloor> \<le> N" using le by (simp add: floor_le_iff)
  have "\<lfloor>y\<rfloor> + 1 \<le> N" if "of_int \<lfloor>y\<rfloor> < y"
  proof -
    have "(of_int \<lfloor>y\<rfloor> :: real) < of_int N" using that le by linarith
    then show ?thesis by simp
  qed
  then show ?thesis
    using fl unfolding rne_def Let_def by (auto; linarith)
qed

lemma rne_ge: "of_int N \<le> y \<Longrightarrow> N \<le> rne y"
proof -
  assume "of_int N \<le> y"
  then have "N \<le> \<lfloor>y\<rfloor>" by (simp add: le_floor_iff)
  then show ?thesis
    unfolding rne_def Let_def by auto
qed

lemma rne_below_half: "y < of_int N + 1 / 2 \<Longrightarrow> rne y \<le> N"
proof -
  assume lt: "y < of_int N + 1 / 2"
  have fl: "\<lfloor>y\<rfloor> \<le> N" using lt by (simp add: floor_le_iff)
  have "\<lfloor>y\<rfloor> + 1 \<le> N" if "1 / 2 \<le> y - of_int \<lfloor>y\<rfloor>"
  proof -
    have "(of_int \<lfloor>y\<rfloor> :: real) < of_int N" using that lt by linarith
    then show ?thesis by simp
  qed
  then show ?thesis
    using fl unfolding rne_def Let_def by (auto; linarith)
qed

lemma nearest_nonneg: "0 \<le> x \<Longrightarrow> 0 \<le> nearest x"
proof -
  assume x: "0 \<le> x"
  have "of_int 0 \<le> x / quantum x"
    using x quantum_pos [of x] by simp
  then have "0 \<le> rne (x / quantum x)"
    by (rule rne_ge)
  then show ?thesis
    using quantum_pos [of x] by (simp add: nearest_def)
qed

lemma exponent_mono:
  assumes "0 < x" "x \<le> y"
  shows "exponent x \<le> exponent y"
proof -
  have "log 2 \<bar>x\<bar> \<le> log 2 \<bar>y\<bar>"
    using assms by (simp add: log_mono)
  then have "\<lfloor>log 2 \<bar>x\<bar>\<rfloor> \<le> \<lfloor>log 2 \<bar>y\<bar>\<rfloor>"
    by (rule floor_mono)
  then show ?thesis
    by (simp add: exponent_def)
qed

lemma nearest_le_grid:
  assumes x: "0 < x" "x \<le> D" and D: "nearest D = D"
  shows "nearest x \<le> D"
proof -
  have D0: "D \<noteq> 0" using x by simp
  define M where "M = rne (D / quantum D)"
  have DM: "D = of_int M * quantum D"
    using D D0 by (simp add: nearest_def M_def)
  define k where "k = nat (exponent D - exponent x)"
  have k: "exponent D - 52 = (exponent x - 52) + int k"
    using exponent_mono [OF x] by (simp add: k_def)
  have qq: "quantum D = quantum x * 2 ^ k"
    by (simp add: quantum_def k powr_add powr_realpow)
  have "D / quantum x = of_int M * (quantum x * 2 ^ k) / quantum x"
    using DM by (simp only: qq)
  also have "\<dots> = of_int (M * 2 ^ k)"
    using quantum_pos [of x] by simp
  finally have "D / quantum x = of_int (M * 2 ^ k)" .
  moreover have "x / quantum x \<le> D / quantum x"
    using x quantum_pos [of x] by (simp add: divide_right_mono)
  ultimately have "rne (x / quantum x) \<le> M * 2 ^ k"
    by (intro rne_le) simp
  then have "(of_int (rne (x / quantum x)) :: real) \<le> of_int (M * 2 ^ k)"
    by (simp only: of_int_le_iff)
  then have "of_int (rne (x / quantum x)) * quantum x \<le> of_int (M * 2 ^ k) * quantum x"
    using quantum_pos [of x] by (intro mult_right_mono) simp_all
  also have "\<dots> = of_int M * (quantum x * 2 ^ k)"
    by simp
  also have "\<dots> = D"
    using DM by (simp only: qq)
  finally show ?thesis
    using x by (simp add: nearest_def)
qed


lemma js_round_Fin: "js_round x = Fin r \<Longrightarrow> r = nearest x \<and> \<bar>r\<bar> < 2 ^ 1024"
  by (auto simp add: js_round_def abs_less_iff not_le split: if_splits)

lemma js_round_nearest: "\<bar>nearest x\<bar> < 2 ^ 1024 \<Longrightarrow> js_round x = Fin (nearest x)"
  by (simp add: js_round_def abs_less_iff not_le)

lemma js_round_below:
  assumes x: "0 \<le> x" "x \<le> D" and D: "js_round D = Fin D"
  shows "js_round x = Fin (nearest x) \<and> 0 \<le> nearest x \<and> nearest x \<le> D"
proof -
  have grid: "nearest D = D" and fin: "\<bar>D\<bar> < 2 ^ 1024"
    using js_round_Fin [OF D] by simp_all
  have lo: "0 \<le> nearest x"
    using x by (simp add: nearest_nonneg)
  have hi: "nearest x \<le> D"
  proof (cases "x = 0")
    case True
    then show ?thesis using x by (simp add: nearest_def)
  next
    case False
    then show ?thesis using x grid by (intro nearest_le_grid) simp_all
  qed
  have "\<bar>nearest x\<bar> < 2 ^ 1024"
    using lo hi fin by linarith
  then show ?thesis
    using lo hi by (simp add: js_round_nearest)
qed

lemma exponent_top:
  assumes "2 ^ 1023 \<le> \<bar>z\<bar>" and "\<bar>z\<bar> < 2 ^ 1024"
  shows "exponent z = 1023"
proof -
  have "\<lfloor>log 2 \<bar>z\<bar>\<rfloor> = 1023"
    using assms by (subst floor_log_eq_powr_iff) simp_all
  then show ?thesis
    by (simp add: exponent_def)
qed

lemma quantum_top:
  assumes "2 ^ 1023 \<le> \<bar>z\<bar>" and "\<bar>z\<bar> < 2 ^ 1024"
  shows "quantum z = 2 ^ 971"
  by (simp add: quantum_def exponent_top [OF assms])

lemma js_round_add_ten:
  assumes a: "0 \<le> a" "a \<le> D" and D: "js_round D = Fin D"
  shows "js_round (a + 10) = Fin (nearest (a + 10))"
proof (cases "a + 10 \<le> 2 ^ 1023 + 2 ^ 1022")
  case True
  then show ?thesis
    using a by (intro js_round_finite) simp
next
  case False
  define x where "x = a + 10"
  have grid: "nearest D = D" and fin: "\<bar>D\<bar> < 2 ^ 1024"
    using js_round_Fin [OF D] by simp_all
  have Dbig: "2 ^ 1023 \<le> \<bar>D\<bar>"
    using False a by simp
  have qD: "quantum D = 2 ^ 971"
    using Dbig fin by (rule quantum_top)
  define M where "M = rne (D / quantum D)"
  have DM: "D = of_int M * 2 ^ 971"
    using grid Dbig by (auto simp add: nearest_def M_def qD split: if_splits)
  have "of_int M * (2::real) ^ 971 < 2 ^ 53 * 2 ^ 971"
    using fin a DM by simp
  then have "(of_int M :: real) < of_int (2 ^ 53)"
    by simp
  then have M: "M \<le> 2 ^ 53 - 1"
    by (simp only: of_int_less_iff)
  have "(of_int M :: real) \<le> of_int (2 ^ 53 - 1)"
    using M by (simp only: of_int_le_iff)
  then have Dmax: "D \<le> (2 ^ 53 - 1) * 2 ^ 971"
    by (subst DM) simp
  have xlo: "2 ^ 1023 \<le> \<bar>x\<bar>"
    using False a by (simp add: x_def)
  have xhi: "\<bar>x\<bar> < 2 ^ 1024"
    using a Dmax by (simp add: x_def)
  have qx: "quantum x = 2 ^ 971"
    using xlo xhi by (rule quantum_top)
  have "x / 2 ^ 971 \<le> (2 ^ 53 - 1) + 10 / 2 ^ 971"
    using a Dmax by (simp add: x_def field_simps)
  also have "\<dots> < of_int (2 ^ 53 - 1) + 1 / 2"
    by simp
  finally have "rne (x / quantum x) \<le> 2 ^ 53 - 1"
    unfolding qx by (rule rne_below_half)
  then have "(of_int (rne (x / quantum x)) :: real) \<le> of_int (2 ^ 53 - 1)"
    by (simp only: of_int_le_iff)
  then have "nearest x \<le> (2 ^ 53 - 1) * 2 ^ 971"
    using xlo by (auto simp add: nearest_def qx)
  moreover have "0 \<le> nearest x"
    using a by (intro nearest_nonneg) (simp add: x_def)
  ultimately have "\<bar>nearest x\<bar> < 2 ^ 1024"
    by simp
  then show ?thesis
    unfolding x_def by (rule js_round_nearest)
qed

text \<open>
  Numbers with a significand of at most 53 bits are binary64 values: rounding leaves
  them as they are.
\<close>

lemma js_round_dyadic:
  assumes "\<bar>m\<bar> < 2 ^ 53" and "k \<le> 1074"
  shows "js_round (of_int m / 2 ^ k) = Fin (of_int m / 2 ^ k)"
proof -
  have "\<bar>of_int m / (2::real) ^ k\<bar> \<le> \<bar>of_int m\<bar>"
    by (simp add: abs_divide divide_le_eq mult_le_cancel_left1 flip: of_int_abs)
  also have "\<dots> \<le> 2 ^ 53"
    using assms(1) by (simp flip: of_int_abs)
  finally have "\<bar>of_int m / (2::real) ^ k\<bar> \<le> 2 ^ 1023 + 2 ^ 1022"
    by simp
  then show ?thesis
    using nearest_dyadic [OF assms] by (simp add: js_round_finite)
qed

lemma js_round_0: "js_round 0 = Fin 0"
  using js_round_dyadic [of 0 0] by simp

lemma js_round_1: "js_round 1 = Fin 1"
  using js_round_dyadic [of 1 0] by simp

lemma js_round_numeral:
  "(numeral n :: int) < 2 ^ 53 \<Longrightarrow> js_round (numeral n) = Fin (numeral n)"
  using js_round_dyadic [of "numeral n" 0] by simp

lemma js_round_neg_numeral:
  "(numeral n :: int) < 2 ^ 53 \<Longrightarrow> js_round (- numeral n) = Fin (- numeral n)"
  using js_round_dyadic [of "- numeral n" 0] by simp

lemma js_round_halves:
  "(numeral n :: int) < 2 ^ 53 \<Longrightarrow> js_round (numeral n / 2) = Fin (numeral n / 2)"
  using js_round_dyadic [of "numeral n" 1] by simp

lemma js_round_half: "js_round (1 / 2) = Fin (1 / 2)"
  using js_round_dyadic [of 1 1] by simp

lemma js_round_quarter: "js_round (1 / 4) = Fin (1 / 4)"
  using js_round_dyadic [of 1 2] by simp

lemmas js_round_exact =
  js_round_0 js_round_1 js_round_numeral js_round_neg_numeral js_round_halves js_round_half
  js_round_quarter

section \<open>Evaluation\<close>

lemmas eval_defs =
  onGetVolume_def onVolumeChange_def cleanup_def onVideoError_def handlePlayPause_def
  handleFullScreen_def onProgress_def onEnd_def videoAreaClicked_def onSeekBarChange_def
  onLoad_def onTouchStart_def onTouchEnd_def onSeekBarSlidingStart_def
  onSeekBarSlidingEnd_def seekForward_def seekBackward_def toggleMuteButton_def onReady_def
  onBuffer_def onRetryClick_def fire_def runCallback_def emit_def setTimeout_def
  clearTimeout_def timerSet_def clearHideControlsTimer_def armHideControlsTimer_def
  playerRef_def seek_def truthy_def justClicked_def videoRendered_def controlsRendered_def
  dispatch_def run_def mount_def withControls_def phone_def initialVolumeState_def
  decoderVolume_def decoderMuted_def hideTimers_def js_eq_def js_gt_def js_sub_def Let_def
  js_round_exact

lemma halfway_duration: "videoDuration halfway = Fin 120"
  by (simp add: halfway_def eval_defs)

lemma halfway_seek: "videoSeek halfway = Fin (1 / 2)"
  by (simp add: halfway_def eval_defs)

lemma halfway_playerRef: "playerRef halfway"
  by (simp add: halfway_def eval_defs)

section \<open>Volume and mute\<close>

text \<open>
  Claim C1 says that muting, an OS volume notification with value \<open>V\<close>, and un-muting
  leave the decoder at volume \<open>V\<close>, and that a notification while muted changes only
  what un-muting restores. The code does neither. The volume listener never writes
  \<open>systemVolume\<close> (only the \<open>getVolume\<close> promise of the mount effect does), and it
  overwrites \<open>volumeState\<close> with the first render's \<open>isMute: false\<close> and the new volume.
  With the system volume 1 at mount, a mute press, a notification of volume 1/2 and a
  second mute press: after the notification the decoder is un-muted at volume 1/2 and
  \<open>systemVolume\<close> is still 1; the second press then mutes, and the decoder ends muted at
  volume 0 instead of un-muted at 1/2.
\<close>

theorem volume_change_while_muted_unmutes:
  "decoderVolume (run withControls phone
      [GetVolumeResolved (Fin 1), ReadyForDisplay, MutePress,
       VolumeChanged (Fin (1 / 2)), MutePress]) = Fin 0
   \<and> decoderMuted (run withControls phone
      [GetVolumeResolved (Fin 1), ReadyForDisplay, MutePress,
       VolumeChanged (Fin (1 / 2)), MutePress])
   \<and> decoderMuted (run withControls phone
      [GetVolumeResolved (Fin 1), ReadyForDisplay, MutePress])
   \<and> decoderVolume (run withControls phone
      [GetVolumeResolved (Fin 1), ReadyForDisplay, MutePress,
       VolumeChanged (Fin (1 / 2))]) = Fin (1 / 2)
   \<and> \<not> decoderMuted (run withControls phone
      [GetVolumeResolved (Fin 1), ReadyForDisplay, MutePress,
       VolumeChanged (Fin (1 / 2))])
   \<and> systemVolume (run withControls phone
      [GetVolumeResolved (Fin 1), ReadyForDisplay, MutePress,
       VolumeChanged (Fin (1 / 2))]) = Some (Fin 1)"
  by (simp add: eval_defs)

section \<open>Seeking by ten seconds\<close>

text \<open>
  Claim C2 as stated fails: a forward seek that is clamped cannot be undone by the
  backward seek. With a duration of 1 second and the playhead at fraction 1/2, the
  forward press clamps to the end and the backward press clamps to the start, so the
  fraction ends at 0, not at 1/2.
\<close>

theorem seek_round_trip_counterexample:
  "videoDuration (run withControls phone
      [Loaded (Fin 1), ReadyForDisplay,
       Progress \<lparr>currentTime = Fin (1 / 2), playableDuration = Fin 1, seekableDuration = Fin 1\<rparr>])
     = Fin 1
   \<and> videoSeek (run withControls phone
      [Loaded (Fin 1), ReadyForDisplay,
       Progress \<lparr>currentTime = Fin (1 / 2), playableDuration = Fin 1, seekableDuration = Fin 1\<rparr>])
     = Fin (1 / 2)
   \<and> videoSeek (run withControls phone
      [Loaded (Fin 1), ReadyForDisplay,
       Progress \<lparr>currentTime = Fin (1 / 2), playableDuration = Fin 1, seekableDuration = Fin 1\<rparr>,
       ForwardPress, BackwardPress])
     = Fin 0"
  by (simp add: eval_defs)

text \<open>
  When the forward seek is clamped, \<open>seekForward\<close> stores the duration, not 1, as the new
  fraction: at the end of 120 seconds of media the fraction becomes 120.
\<close>

lemma seekForward_clamped_fraction:
  "videoSeek (run withControls phone [Loaded (Fin 120), ReadyForDisplay, Ended, ForwardPress])
     = Fin 120"
  by (simp add: eval_defs)

text \<open>
  The error of one rounding is at most \<open>2 powr - 53\<close> of the exact result (plus
  \<open>2 powr - 1075\<close> for a subnormal result). The lemmas below add these errors up along
  the computations of \<open>seekForward\<close> and \<open>seekBackward\<close>, with all times divided by the
  duration.
\<close>

lemma pow53: "(2::real) ^ 53 = 9007199254740992" by simp
lemma pow52: "(2::real) ^ 52 = 4503599627370496" by simp
lemma pow51: "(2::real) ^ 51 = 2251799813685248" by simp
lemma pow49: "(2::real) ^ 49 = 562949953421312" by simp
lemma pow60: "(2::real) ^ 60 = 1152921504606846976" by simp

lemma tiny:
  fixes t v :: real
  assumes "\<bar>t - v\<bar> \<le> \<bar>v\<bar> / 2 ^ 53 + 1 / 2 ^ 1075"
  shows "\<bar>t - v\<bar> \<le> \<bar>v\<bar> / 9007199254740992 + 1 / 1152921504606846976"
proof -
  have "(1::real) / 2 ^ 1075 \<le> 1 / 2 ^ 60" by simp
  then show ?thesis using assms unfolding pow53 pow60 by linarith
qed

lemma scale_error:
  fixes D t v :: real
  assumes D: "1 \<le> D" and e: "\<bar>t - v\<bar> \<le> \<bar>v\<bar> / 2 ^ 53 + 1 / 2 ^ 1075"
  shows "\<bar>t / D - v / D\<bar> \<le> \<bar>v / D\<bar> / 2 ^ 53 + 1 / 2 ^ 1075"
proof -
  have pos: "0 < D" using D by simp
  have "\<bar>t / D - v / D\<bar> = \<bar>t - v\<bar> / D"
    using pos by (simp add: abs_divide flip: diff_divide_distrib)
  also have "\<dots> \<le> (\<bar>v\<bar> / 2 ^ 53 + 1 / 2 ^ 1075) / D"
    using e pos by (simp only: divide_right_mono less_imp_le)
  also have "\<dots> = \<bar>v / D\<bar> / 2 ^ 53 + (1 / 2 ^ 1075) / D"
    using pos by (simp add: add_divide_distrib abs_divide)
  also have "\<dots> \<le> \<bar>v / D\<bar> / 2 ^ 53 + 1 / 2 ^ 1075"
  proof -
    have "(1 / 2 ^ 1075) / D \<le> (1 / 2 ^ 1075) / 1"
      using D by (intro divide_left_mono) simp_all
    then show ?thesis by simp
  qed
  finally show ?thesis .
qed

lemma step_error:
  fixes t v :: real
  assumes "\<bar>v\<bar> \<le> 3 / 2" and "\<bar>t - v\<bar> \<le> \<bar>v\<bar> / 2 ^ 53 + 1 / 2 ^ 1075"
  shows "\<bar>t - v\<bar> \<le> 1 / 2 ^ 52"
  using assms(1) assms(2) [THEN tiny] unfolding pow52 by argo

lemma round_trip_arith:
  fixes f c x1 X f1 x3 x4 :: real
  assumes f: "0 \<le> f" "f \<le> 1" and c: "0 < c"
    and e1: "\<bar>x1 - f\<bar> \<le> \<bar>f\<bar> / 2 ^ 53 + 1 / 2 ^ 1075"
    and e2: "\<bar>X - (x1 + c)\<bar> \<le> \<bar>x1 + c\<bar> / 2 ^ 53 + 1 / 2 ^ 1075"
    and X: "X \<le> 1"
    and e3: "\<bar>f1 - X\<bar> \<le> \<bar>X\<bar> / 2 ^ 53 + 1 / 2 ^ 1075"
    and e4: "\<bar>x3 - f1\<bar> \<le> \<bar>f1\<bar> / 2 ^ 53 + 1 / 2 ^ 1075"
    and e5: "\<bar>x4 - (x3 - c)\<bar> \<le> \<bar>x3 - c\<bar> / 2 ^ 53 + 1 / 2 ^ 1075"
  shows "\<bar>x4 - f\<bar> \<le> 5 / 2 ^ 52" and "\<bar>x4\<bar> \<le> 3 / 2"
proof -
  have d1: "\<bar>x1 - f\<bar> \<le> 1 / 2 ^ 52"
    using f e1 by (intro step_error) simp_all
  have m2: "\<bar>x1 + c\<bar> \<le> 3 / 2"
    using f c d1 X e2 [THEN tiny] unfolding pow52 by argo
  have d2: "\<bar>X - (x1 + c)\<bar> \<le> 1 / 2 ^ 52"
    using m2 e2 by (rule step_error)
  have m3: "\<bar>X\<bar> \<le> 3 / 2"
    using f c d1 d2 X unfolding pow52 by argo
  have d3: "\<bar>f1 - X\<bar> \<le> 1 / 2 ^ 52"
    using m3 e3 by (rule step_error)
  have m4: "\<bar>f1\<bar> \<le> 3 / 2"
    using m3 d3 X f c d1 d2 unfolding pow52 by argo
  have d4: "\<bar>x3 - f1\<bar> \<le> 1 / 2 ^ 52"
    using m4 e4 by (rule step_error)
  have m5: "\<bar>x3 - c\<bar> \<le> 3 / 2"
    using f d1 d2 d3 d4 unfolding pow52 by argo
  have d5: "\<bar>x4 - (x3 - c)\<bar> \<le> 1 / 2 ^ 52"
    using m5 e5 by (rule step_error)
  show "\<bar>x4 - f\<bar> \<le> 5 / 2 ^ 52"
    using d1 d2 d3 d4 d5 unfolding pow52 by argo
  then show "\<bar>x4\<bar> \<le> 3 / 2"
    using f unfolding pow52 by argo
qed

lemma round_trip_last:
  fixes f x4 f2 :: real
  assumes "\<bar>x4 - f\<bar> \<le> 5 / 2 ^ 52" and "\<bar>x4\<bar> \<le> 3 / 2"
    and "\<bar>f2 - x4\<bar> \<le> \<bar>x4\<bar> / 2 ^ 53 + 1 / 2 ^ 1075"
  shows "\<bar>f2 - f\<bar> \<le> 1 / 2 ^ 49"
  using assms(1) step_error [OF assms(2,3)] unfolding pow49 pow52 by argo

lemma forward_time_arith:
  fixes a t1 T D :: real
  assumes "0 \<le> a"
    and "\<bar>t1 - a\<bar> \<le> \<bar>a\<bar> / 2 ^ 53 + 1 / 2 ^ 1075"
    and "\<bar>T - (t1 + 10)\<bar> \<le> \<bar>t1 + 10\<bar> / 2 ^ 53 + 1 / 2 ^ 1075"
  shows "\<bar>min T D - min (a + 10) D\<bar> \<le> (a + 10) / 2 ^ 51" and "9 \<le> T"
  using assms(1) assms(2,3) [THEN tiny] unfolding pow51 by argo+

lemma backward_time_arith:
  fixes a t1 T :: real
  assumes "0 \<le> a"
    and "\<bar>t1 - a\<bar> \<le> \<bar>a\<bar> / 2 ^ 53 + 1 / 2 ^ 1075"
    and "\<bar>T - (t1 - 10)\<bar> \<le> \<bar>t1 - 10\<bar> / 2 ^ 53 + 1 / 2 ^ 1075"
  shows "\<bar>max T 0 - max (a - 10) 0\<bar> \<le> (a + 10) / 2 ^ 51"
  using assms(1) assms(2,3) [THEN tiny] unfolding pow51 by argo

lemma nearest_nonpos: "x \<le> 0 \<Longrightarrow> nearest x \<le> 0"
proof -
  assume x: "x \<le> 0"
  have "x / quantum x \<le> of_int 0"
    using x quantum_pos [of x] by (simp add: divide_le_0_iff)
  then have "rne (x / quantum x) \<le> 0"
    by (rule rne_le)
  then have "(of_int (rne (x / quantum x)) :: real) \<le> 0"
    by simp
  then show ?thesis
    using quantum_pos [of x] by (simp add: nearest_def mult_le_0_iff)
qed

lemma nearest_ten: "nearest 10 = 10"
  using nearest_dyadic [of 10 0] by simp

lemma js_mul_fraction:
  assumes "0 \<le> f" "f \<le> 1" "0 < D" "js_round D = Fin D"
  shows "js_mul (Fin f) (Fin D) = Fin (nearest (f * D))
     \<and> 0 \<le> nearest (f * D) \<and> nearest (f * D) \<le> D"
proof -
  have "0 \<le> f * D" using assms by simp
  moreover have "f * D \<le> D" using assms by (simp add: mult_left_le_one_le)
  ultimately show ?thesis
    using js_round_below [of "f * D" D] assms(4) by simp
qed

lemma js_sub_ten:
  assumes "0 \<le> a" "a \<le> D" "js_round D = Fin D"
  shows "js_sub (Fin a) (Fin 10) = Fin (nearest (a - 10)) \<and> nearest (a - 10) \<le> D"
proof (cases "10 \<le> a")
  case True
  then show ?thesis
    using js_round_below [of "a - 10" D] assms by (simp add: js_sub_def)
next
  case False
  then have "\<bar>a - 10\<bar> \<le> 2 ^ 1023 + 2 ^ 1022"
    using assms(1) by simp
  then have "js_round (a - 10) = Fin (nearest (a - 10))"
    by (rule js_round_finite)
  moreover have "nearest (a - 10) \<le> 0"
    using False by (intro nearest_nonpos) simp
  ultimately show ?thesis
    using assms by (simp add: js_sub_def)
qed

lemma js_div_duration:
  assumes "0 \<le> t" "t \<le> D" "0 < D"
  shows "js_div (Fin t) (Fin D) = Fin (nearest (t / D))
     \<and> 0 \<le> nearest (t / D) \<and> nearest (t / D) \<le> 1"
proof -
  have "0 \<le> t / D" "t / D \<le> 1"
    using assms by simp_all
  then show ?thesis
    using js_round_below [of "t / D" 1] js_round_1 assms(3) by simp
qed

text \<open>What \<open>seekForward\<close> and \<open>seekBackward\<close> compute, in terms of the rounded values.\<close>

lemma seekForward_rounded:
  assumes dur: "videoDuration s = Fin D" and D: "0 < D" "js_round D = Fin D"
    and pos: "videoSeek s = Fin f" and f: "0 \<le> f" "f \<le> 1"
  shows "forwardTime s = Fin (nearest (nearest (f * D) + 10))"
    and "forwardClamped s = (D < nearest (nearest (f * D) + 10))"
    and "seekForward s =
      (if D < nearest (nearest (f * D) + 10)
       then (seek (Fin D) s)\<lparr>videoSeek := Fin D\<rparr>
       else (seek (Fin (nearest (nearest (f * D) + 10))) s)
              \<lparr>videoSeek := js_div (Fin (nearest (nearest (f * D) + 10))) (Fin D)\<rparr>)"
proof -
  have m: "js_mul (Fin f) (Fin D) = Fin (nearest (f * D))"
    and r: "0 \<le> nearest (f * D)" "nearest (f * D) \<le> D"
    using js_mul_fraction [OF f D] by simp_all
  have a: "js_add (Fin (nearest (f * D))) (Fin 10) = Fin (nearest (nearest (f * D) + 10))"
    using js_round_add_ten [OF r D(2)] by simp
  show t: "forwardTime s = Fin (nearest (nearest (f * D) + 10))"
    unfolding forwardTime_def dur pos m a ..
  show "forwardClamped s = (D < nearest (nearest (f * D) + 10))"
    unfolding forwardClamped_def t dur by (simp add: js_gt_def)
  show "seekForward s =
      (if D < nearest (nearest (f * D) + 10)
       then (seek (Fin D) s)\<lparr>videoSeek := Fin D\<rparr>
       else (seek (Fin (nearest (nearest (f * D) + 10))) s)
              \<lparr>videoSeek := js_div (Fin (nearest (nearest (f * D) + 10))) (Fin D)\<rparr>)"
    unfolding seekForward_def Let_def dur pos m a by (simp add: js_gt_def)
qed

lemma seekBackward_rounded:
  assumes dur: "videoDuration s = Fin D" and D: "0 < D" "js_round D = Fin D"
    and pos: "videoSeek s = Fin f" and f: "0 \<le> f" "f \<le> 1"
  shows "seekBackward s =
      (if nearest (nearest (f * D) - 10) < 0
       then (seek (Fin 0) s)\<lparr>videoSeek := Fin 0\<rparr>
       else (seek (Fin (nearest (nearest (f * D) - 10))) s)
              \<lparr>videoSeek := js_div (Fin (nearest (nearest (f * D) - 10))) (Fin D)\<rparr>)"
proof -
  have m: "js_mul (Fin f) (Fin D) = Fin (nearest (f * D))"
    and r: "0 \<le> nearest (f * D)" "nearest (f * D) \<le> D"
    using js_mul_fraction [OF f D] by simp_all
  have b: "js_sub (Fin (nearest (f * D))) (Fin 10) = Fin (nearest (nearest (f * D) - 10))"
    using js_sub_ten [OF r D(2)] by simp
  show ?thesis
    unfolding seekBackward_def Let_def dur pos m b by simp
qed

lemma loaded_facts:
  "videoDuration loaded = Fin 120 \<and> videoSeek loaded = Fin 0 \<and> playerRef loaded"
  by (simp add: loaded_def eval_defs)

text \<open>
  Claim C2, amended. For a duration \<open>D > 0\<close> that is a binary64 value and a fraction \<open>f\<close>
  in \<open>[0, 1]\<close>, so that the time \<open>t = f * D\<close> is in \<open>[0, D]\<close>:
  \<open>seekForward\<close> issues a decoder seek to a time in \<open>[0, D]\<close> that is within rounding
  tolerance, \<open>(t + 10) / 2 ^ 51\<close>, of \<open>t + 10\<close> clamped to \<open>D\<close>;
  \<open>seekBackward\<close> issues a decoder seek to a time in \<open>[0, D]\<close> that is within the same
  tolerance of \<open>t - 10\<close> clamped to 0, and sets the fraction to the issued time divided by
  \<open>D\<close>; for \<open>t \<le> 10\<close> the issued time and the fraction are 0, so the fraction stays 0 at
  \<open>t = 0\<close>;
  when \<open>seekForward\<close> does not clamp, it sets the fraction to the issued time divided by
  \<open>D\<close>, and \<open>seekForward\<close> followed by \<open>seekBackward\<close> returns the fraction to within
  rounding tolerance, \<open>1 / 2 ^ 49\<close>, of \<open>f\<close>.
\<close>

theorem seek_ten_seconds_clamped:
  "\<lbrakk>videoDuration s = Fin D; 0 < D; js_round D = Fin D; videoSeek s = Fin f; 0 \<le> f; f \<le> 1;
    playerRef s\<rbrakk>
   \<Longrightarrow> (\<exists>t. effects (seekForward s) = effects s @ [Seek (Fin t)] \<and> 0 \<le> t \<and> t \<le> D
          \<and> \<bar>t - min (f * D + 10) D\<bar> \<le> (f * D + 10) / 2 ^ 51
          \<and> (\<not> forwardClamped s \<longrightarrow> videoSeek (seekForward s) = js_div (Fin t) (Fin D)))
     \<and> (\<exists>t. effects (seekBackward s) = effects s @ [Seek (Fin t)] \<and> 0 \<le> t \<and> t \<le> D
          \<and> \<bar>t - max (f * D - 10) 0\<bar> \<le> (f * D + 10) / 2 ^ 51
          \<and> videoSeek (seekBackward s) = js_div (Fin t) (Fin D)
          \<and> (f * D \<le> 10 \<longrightarrow> t = 0 \<and> videoSeek (seekBackward s) = Fin 0))
     \<and> (\<not> forwardClamped s \<longrightarrow>
          (\<exists>g. videoSeek (seekBackward (seekForward s)) = Fin g \<and> \<bar>g - f\<bar> \<le> 1 / 2 ^ 49))"
proof -
  assume dur: "videoDuration s = Fin D" and D: "0 < D" "js_round D = Fin D"
    and pos: "videoSeek s = Fin f" and f: "0 \<le> f" "f \<le> 1" and ref: "playerRef s"
  define a where "a = f * D"
  define t1 where "t1 = nearest a"
  define T where "T = nearest (t1 + 10)"
  define B where "B = nearest (t1 - 10)"
  have a0: "0 \<le> a"
    using f D by (simp add: a_def)
  have r1: "0 \<le> t1" "t1 \<le> D"
    using js_mul_fraction [OF f D] by (simp_all add: t1_def a_def)
  have e1: "\<bar>t1 - a\<bar> \<le> \<bar>a\<bar> / 2 ^ 53 + 1 / 2 ^ 1075"
    unfolding t1_def by (rule nearest_error)
  have e2: "\<bar>T - (t1 + 10)\<bar> \<le> \<bar>t1 + 10\<bar> / 2 ^ 53 + 1 / 2 ^ 1075"
    unfolding T_def by (rule nearest_error)
  have eB: "\<bar>B - (t1 - 10)\<bar> \<le> \<bar>t1 - 10\<bar> / 2 ^ 53 + 1 / 2 ^ 1075"
    unfolding B_def by (rule nearest_error)
  have T9: "9 \<le> T"
    using a0 e1 e2 by (rule forward_time_arith(2))
  have BD: "B \<le> D"
    using js_sub_ten [OF r1 D(2)] by (simp add: B_def)
  have clamped: "forwardClamped s = (D < T)"
    using seekForward_rounded(2) [OF dur D pos f] by (simp add: T_def t1_def a_def)
  have fw: "seekForward s =
      (if D < T then (seek (Fin D) s)\<lparr>videoSeek := Fin D\<rparr>
       else (seek (Fin T) s)\<lparr>videoSeek := js_div (Fin T) (Fin D)\<rparr>)"
    using seekForward_rounded(3) [OF dur D pos f] by (simp add: T_def t1_def a_def)
  have bw: "seekBackward s =
      (if B < 0 then (seek (Fin 0) s)\<lparr>videoSeek := Fin 0\<rparr>
       else (seek (Fin B) s)\<lparr>videoSeek := js_div (Fin B) (Fin D)\<rparr>)"
    using seekBackward_rounded [OF dur D pos f] by (simp add: B_def t1_def a_def)
  have zero: "js_div (Fin 0) (Fin D) = Fin 0"
    using D by (simp add: js_round_0)

  have forward: "effects (seekForward s) = effects s @ [Seek (Fin (min T D))]
      \<and> 0 \<le> min T D \<and> min T D \<le> D
      \<and> \<bar>min T D - min (f * D + 10) D\<bar> \<le> (f * D + 10) / 2 ^ 51
      \<and> (\<not> forwardClamped s \<longrightarrow> videoSeek (seekForward s) = js_div (Fin (min T D)) (Fin D))"
  proof -
    have "effects (seekForward s) = effects s @ [Seek (Fin (min T D))]"
      using ref by (simp add: fw seek_def emit_def min_def)
    moreover have "0 \<le> min T D"
      using T9 D by simp
    moreover have "\<bar>min T D - min (a + 10) D\<bar> \<le> (a + 10) / 2 ^ 51"
      using a0 e1 e2 by (rule forward_time_arith(1))
    moreover have "videoSeek (seekForward s) = js_div (Fin (min T D)) (Fin D)" if "\<not> forwardClamped s"
    proof -
      have le: "T \<le> D" using that by (simp add: clamped)
      then have m: "min T D = T" by simp
      show ?thesis
        unfolding m using le by (simp add: fw)
    qed
    ultimately show ?thesis
      by (simp add: a_def)
  qed

  have backward: "effects (seekBackward s) = effects s @ [Seek (Fin (max B 0))]
      \<and> 0 \<le> max B 0 \<and> max B 0 \<le> D
      \<and> \<bar>max B 0 - max (f * D - 10) 0\<bar> \<le> (f * D + 10) / 2 ^ 51
      \<and> videoSeek (seekBackward s) = js_div (Fin (max B 0)) (Fin D)
      \<and> (f * D \<le> 10 \<longrightarrow> max B 0 = 0 \<and> videoSeek (seekBackward s) = Fin 0)"
  proof -
    have eff: "effects (seekBackward s) = effects s @ [Seek (Fin (max B 0))]"
      using ref by (simp add: bw seek_def emit_def max_def)
    have hi: "max B 0 \<le> D"
      using BD D by simp
    have tol: "\<bar>max B 0 - max (a - 10) 0\<bar> \<le> (a + 10) / 2 ^ 51"
      using a0 e1 eB by (rule backward_time_arith)
    have frac: "videoSeek (seekBackward s) = js_div (Fin (max B 0)) (Fin D)"
    proof (cases "B < 0")
      case True
      then have m: "max B 0 = 0" by simp
      have "videoSeek (seekBackward s) = Fin 0"
        using True by (simp add: bw seek_def emit_def)
      then show ?thesis unfolding m zero .
    next
      case False
      then have m: "max B 0 = B" by simp
      show ?thesis
        unfolding m using False by (simp add: bw seek_def emit_def)
    qed
    have low: "max B 0 = 0 \<and> videoSeek (seekBackward s) = Fin 0" if "a \<le> 10"
    proof -
      have "t1 \<le> 10"
      proof (cases "a = 0")
        case True
        then show ?thesis by (simp add: t1_def nearest_def)
      next
        case False
        then show ?thesis
          unfolding t1_def using a0 that nearest_ten by (intro nearest_le_grid) simp_all
      qed
      then have "B \<le> 0"
        unfolding B_def by (intro nearest_nonpos) simp
      then have m: "max B 0 = 0" by simp
      have "videoSeek (seekBackward s) = Fin 0"
        using frac unfolding m zero .
      then show ?thesis using m by simp
    qed
    from eff hi tol frac low show ?thesis
      by (simp add: a_def)
  qed

  have trip: "\<exists>g. videoSeek (seekBackward (seekForward s)) = Fin g \<and> \<bar>g - f\<bar> \<le> 1 / 2 ^ 49"
    if free: "\<not> forwardClamped s"
  proof -
    have TD: "T \<le> D" using free by (simp add: clamped)
    have T0: "0 \<le> T" using T9 by simp
    have D1: "1 \<le> D" using T9 TD by simp
    define f1 where "f1 = nearest (T / D)"
    define t3 where "t3 = nearest (f1 * D)"
    define B' where "B' = nearest (t3 - 10)"
    define g where "g = (if B' < 0 then 0 else nearest (B' / D))"
    have d1: "js_div (Fin T) (Fin D) = Fin f1" and rf: "0 \<le> f1" "f1 \<le> 1"
      using js_div_duration [OF T0 TD D(1)] by (simp_all add: f1_def)
    have sf: "seekForward s = (seek (Fin T) s)\<lparr>videoSeek := Fin f1\<rparr>"
      unfolding fw d1 using TD by simp
    have pos': "videoSeek (seekForward s) = Fin f1"
      by (simp add: sf)
    have dur': "videoDuration (seekForward s) = Fin D"
      using dur by (simp add: sf seek_def emit_def)
    have r3: "0 \<le> t3" "t3 \<le> D"
      using js_mul_fraction [OF rf D] by (simp_all add: t3_def)
    have B'D: "B' \<le> D"
      using js_sub_ten [OF r3 D(2)] by (simp add: B'_def)
    have sb: "seekBackward (seekForward s) =
        (if B' < 0 then (seek (Fin 0) (seekForward s))\<lparr>videoSeek := Fin 0\<rparr>
         else (seek (Fin B') (seekForward s))\<lparr>videoSeek := js_div (Fin B') (Fin D)\<rparr>)"
      using seekBackward_rounded [OF dur' D pos' rf] unfolding B'_def t3_def .
    have val: "videoSeek (seekBackward (seekForward s)) = Fin g"
    proof (cases "B' < 0")
      case True
      then show ?thesis by (simp add: sb g_def)
    next
      case False
      then have "0 \<le> B'" by simp
      then have dv: "js_div (Fin B') (Fin D) = Fin (nearest (B' / D))"
        using js_div_duration [OF _ B'D D(1)] by simp
      show ?thesis
        unfolding sb dv using False by (simp add: g_def)
    qed
    have E1: "\<bar>t1 / D - f\<bar> \<le> \<bar>f\<bar> / 2 ^ 53 + 1 / 2 ^ 1075"
      using scale_error [OF D1 e1] D(1) by (simp add: a_def)
    have E2: "\<bar>T / D - (t1 / D + 10 / D)\<bar> \<le> \<bar>t1 / D + 10 / D\<bar> / 2 ^ 53 + 1 / 2 ^ 1075"
      using scale_error [OF D1 e2] by (simp only: add_divide_distrib)
    have X: "T / D \<le> 1"
      using TD D(1) by simp
    have E3: "\<bar>f1 - T / D\<bar> \<le> \<bar>T / D\<bar> / 2 ^ 53 + 1 / 2 ^ 1075"
      unfolding f1_def by (rule nearest_error)
    have e4: "\<bar>t3 - f1 * D\<bar> \<le> \<bar>f1 * D\<bar> / 2 ^ 53 + 1 / 2 ^ 1075"
      unfolding t3_def by (rule nearest_error)
    have E4: "\<bar>t3 / D - f1\<bar> \<le> \<bar>f1\<bar> / 2 ^ 53 + 1 / 2 ^ 1075"
      using scale_error [OF D1 e4] D(1) by simp
    have e5: "\<bar>B' - (t3 - 10)\<bar> \<le> \<bar>t3 - 10\<bar> / 2 ^ 53 + 1 / 2 ^ 1075"
      unfolding B'_def by (rule nearest_error)
    have E5: "\<bar>B' / D - (t3 / D - 10 / D)\<bar> \<le> \<bar>t3 / D - 10 / D\<bar> / 2 ^ 53 + 1 / 2 ^ 1075"
      using scale_error [OF D1 e5] by (simp only: diff_divide_distrib)
    have c: "0 < 10 / D"
      using D(1) by simp
    have near: "\<bar>B' / D - f\<bar> \<le> 5 / 2 ^ 52" and size: "\<bar>B' / D\<bar> \<le> 3 / 2"
      using round_trip_arith [OF f c E1 E2 X E3 E4 E5] by simp_all
    have "\<bar>g - f\<bar> \<le> 1 / 2 ^ 49"
    proof (cases "B' < 0")
      case True
      then have "B' / D < 0"
        using D(1) by (simp add: divide_neg_pos)
      then have "\<bar>0 - f\<bar> \<le> 1 / 2 ^ 49"
        using near f(1) unfolding pow52 pow49 by argo
      then show ?thesis using True by (simp add: g_def)
    next
      case False
      have "\<bar>nearest (B' / D) - B' / D\<bar> \<le> \<bar>B' / D\<bar> / 2 ^ 53 + 1 / 2 ^ 1075"
        by (rule nearest_error)
      then have "\<bar>nearest (B' / D) - f\<bar> \<le> 1 / 2 ^ 49"
        using near size by (intro round_trip_last)
      then show ?thesis using False by (simp add: g_def)
    qed
    then show ?thesis using val by blast
  qed
  from forward backward trip show ?thesis by blast
qed

theorem seek_ten_seconds_clamped_witness:
  "videoDuration halfway = Fin 120 \<and> js_round 120 = Fin 120 \<and> videoSeek halfway = Fin (1 / 2)
   \<and> playerRef halfway \<and> \<not> forwardClamped halfway
   \<and> effects (seekForward halfway) = effects halfway @ [Seek (Fin 70)]
   \<and> effects (seekBackward halfway) = effects halfway @ [Seek (Fin 50)]
   \<and> videoSeek (seekForward halfway) = js_div (Fin 70) (Fin 120)
   \<and> videoSeek (seekBackward halfway) = js_div (Fin 50) (Fin 120)
   \<and> (\<exists>g. videoSeek (seekBackward (seekForward halfway)) = Fin g \<and> \<bar>g - 1 / 2\<bar> \<le> 1 / 2 ^ 49)
   \<and> videoDuration loaded = Fin 120 \<and> videoSeek loaded = Fin 0 \<and> playerRef loaded
   \<and> effects (seekBackward loaded) = effects loaded @ [Seek (Fin 0)]
   \<and> videoSeek (seekBackward loaded) = Fin 0"
proof -
  have dbl: "js_round 120 = Fin 120"
    by (simp add: js_round_numeral)
  have free: "\<not> forwardClamped halfway"
    by (simp add: halfway_def forwardClamped_def forwardTime_def eval_defs)
  have ev: "effects (seekForward halfway) = effects halfway @ [Seek (Fin 70)]
      \<and> effects (seekBackward halfway) = effects halfway @ [Seek (Fin 50)]
      \<and> videoSeek (seekForward halfway) = js_div (Fin 70) (Fin 120)
      \<and> videoSeek (seekBackward halfway) = js_div (Fin 50) (Fin 120)"
    by (simp add: halfway_def eval_defs)
  have trip: "\<exists>g. videoSeek (seekBackward (seekForward halfway)) = Fin g \<and> \<bar>g - 1 / 2\<bar> \<le> 1 / 2 ^ 49"
    using seek_ten_seconds_clamped [OF halfway_duration _ dbl halfway_seek _ _ halfway_playerRef] free
    by simp
  have low: "effects (seekBackward loaded) = effects loaded @ [Seek (Fin 0)]
      \<and> videoSeek (seekBackward loaded) = Fin 0"
  proof -
    have l: "videoDuration loaded = Fin 120" "videoSeek loaded = Fin 0" "playerRef loaded"
      using loaded_facts by simp_all
    obtain t where "effects (seekBackward loaded) = effects loaded @ [Seek (Fin t)]"
      and "0 * 120 \<le> (10::real) \<longrightarrow> t = 0 \<and> videoSeek (seekBackward loaded) = Fin 0"
      using seek_ten_seconds_clamped [OF l(1) _ dbl l(2) _ _ l(3)] by auto
    then show ?thesis by simp
  qed
  show ?thesis
    using dbl free ev trip low halfway_duration halfway_seek halfway_playerRef loaded_facts
    by (simp only: simp_thms)
qed

text \<open>
  \<open>seekForward\<close> in terms of its computed time and its test.
\<close>

lemma seekForward_clamp:
  "seekForward s =
     (if forwardClamped s
      then (seek (videoDuration s) s)\<lparr>videoSeek := videoDuration s\<rparr>
      else (seek (forwardTime s) s)\<lparr>videoSeek := js_div (forwardTime s) (videoDuration s)\<rparr>)"
  by (simp add: seekForward_def forwardClamped_def forwardTime_def Let_def)

text \<open>
  Rounding a number that lies strictly between two neighbouring binary64 values: with
  the spacing \<open>1 / 2 ^ k\<close> at the number, the result is the multiple of the spacing less
  than half a spacing away.
\<close>

lemma rne_above_half: "of_int N - 1 / 2 < y \<Longrightarrow> N \<le> rne y"
proof -
  assume gt: "of_int N - 1 / 2 < y"
  have fl: "N - 1 \<le> \<lfloor>y\<rfloor>"
    using gt by (simp add: le_floor_iff)
  have "N \<le> \<lfloor>y\<rfloor>" if "y - of_int \<lfloor>y\<rfloor> \<le> 1 / 2"
  proof -
    have "(of_int N :: real) < of_int \<lfloor>y\<rfloor> + 1" using that gt by linarith
    then have "(of_int N :: real) < of_int (\<lfloor>y\<rfloor> + 1)" by simp
    then have "N < \<lfloor>y\<rfloor> + 1" by (simp only: of_int_less_iff)
    then show ?thesis by simp
  qed
  then show ?thesis
    using fl unfolding rne_def Let_def by (auto; linarith)
qed

lemma rne_eval: "of_int N - 1 / 2 < y \<Longrightarrow> y < of_int N + 1 / 2 \<Longrightarrow> rne y = N"
  using rne_above_half [of N y] rne_below_half [of y N] by simp

lemma nearest_eval:
  assumes k: "k \<le> 1074"
    and lo: "2 ^ 52 \<le> \<bar>x\<bar> * 2 ^ k" and hi: "\<bar>x\<bar> * 2 ^ k < 2 ^ 53"
    and n: "of_int n - 1 / 2 < x * 2 ^ k" "x * 2 ^ k < of_int n + 1 / 2"
  shows "nearest x = of_int n / 2 ^ k"
proof -
  have x0: "x \<noteq> 0"
    using lo by auto
  have p: "(2::real) powr of_int (52 - int k) = 2 ^ 52 / 2 ^ k"
    by (simp add: powr_diff powr_realpow)
  have p': "(2::real) powr of_int (52 - int k + 1) = 2 ^ 53 / 2 ^ k"
    by (simp add: powr_diff powr_add powr_realpow)
  have "\<lfloor>log 2 \<bar>x\<bar>\<rfloor> = 52 - int k"
    using x0 lo hi
    by (subst floor_log_eq_powr_iff) (simp_all only: p p', simp_all add: field_simps)
  then have "exponent x = 52 - int k"
    using k by (simp add: exponent_def)
  then have "quantum x = 2 powr (- real k)"
    by (simp add: quantum_def)
  also have "\<dots> = 1 / 2 ^ k"
    by (simp add: powr_minus_divide powr_realpow)
  finally have q: "quantum x = 1 / 2 ^ k" .
  have "rne (x / quantum x) = n"
    using n by (intro rne_eval) (simp_all add: q)
  then show ?thesis
    using x0 by (simp add: nearest_def q)
qed

text \<open>
  The round trip is not exact. With 25 seconds of media and the fraction at the binary64
  value of 0.16, which is \<open>5764607523034235 / 2 ^ 55\<close>, the forward seek goes to 14 and the
  backward seek to \<open>2251799813685249 / 2 ^ 49\<close>, just above 4, and the fraction comes back
  as \<open>5764607523034237 / 2 ^ 55\<close>, two units in the last place above where it started.
\<close>

lemma nearest_example_time: "nearest (5764607523034235 / 2 ^ 55 * 25) = 4"
  using nearest_eval [of 50 "5764607523034235 / 2 ^ 55 * 25" 4503599627370496] by simp

lemma nearest_example_fraction: "nearest (14 / 25) = 5044031582654956 / 2 ^ 53"
  using nearest_eval [of 53 "14 / 25" 5044031582654956] by simp

lemma nearest_example_back: "nearest (5044031582654956 / 2 ^ 53 * 25) = 7881299347898369 / 2 ^ 49"
  using nearest_eval [of 49 "5044031582654956 / 2 ^ 53 * 25" 7881299347898369] by simp

lemma nearest_example_returned: "nearest (2251799813685249 / 2 ^ 49 / 25) = 5764607523034237 / 2 ^ 55"
  using nearest_eval [of 55 "2251799813685249 / 2 ^ 49 / 25" 5764607523034237] by simp

lemma nearest_example_back_ten: "nearest (7881299347898369 / 2 ^ 49 - 10) = 2251799813685249 / 2 ^ 49"
proof -
  have "(7881299347898369::real) / 2 ^ 49 - 10 = of_int 2251799813685249 / 2 ^ 49"
    by simp
  then show ?thesis
    using nearest_dyadic [of 2251799813685249 49] by simp
qed

lemma seek_round_trip_rounds:
  assumes dur: "videoDuration s = Fin 25"
    and pos: "videoSeek s = Fin (5764607523034235 / 2 ^ 55)"
    and ref: "playerRef s"
  shows "effects (seekBackward (seekForward s)) =
      effects s @ [Seek (Fin 14), Seek (Fin (2251799813685249 / 2 ^ 49))]
    \<and> videoSeek (seekBackward (seekForward s)) = Fin (5764607523034237 / 2 ^ 55)"
proof -
  have dbl: "js_round 25 = Fin 25"
    by (simp add: js_round_numeral)
  have T: "nearest (nearest (5764607523034235 / 2 ^ 55 * 25) + 10) = 14"
    unfolding nearest_example_time using nearest_dyadic [of 14 0] by simp
  have d1: "js_div (Fin 14) (Fin 25) = Fin (5044031582654956 / 2 ^ 53)"
  proof -
    have "(0::real) \<le> 14" "(14::real) \<le> 25" "(0::real) < 25" by simp_all
    from js_div_duration [OF this] show ?thesis by (simp only: nearest_example_fraction)
  qed
  have fw: "seekForward s = (seek (Fin 14) s)\<lparr>videoSeek := Fin (5044031582654956 / 2 ^ 53)\<rparr>"
    using seekForward_rounded(3) [OF dur _ dbl pos] unfolding T d1 by simp
  have dur': "videoDuration (seekForward s) = Fin 25"
    using dur by (simp add: fw seek_def emit_def)
  have pos': "videoSeek (seekForward s) = Fin (5044031582654956 / 2 ^ 53)"
    by (simp add: fw)
  have ref': "playerRef (seekForward s)"
    using ref by (simp add: fw seek_def emit_def playerRef_def)
  have B: "nearest (nearest (5044031582654956 / 2 ^ 53 * 25) - 10) = 2251799813685249 / 2 ^ 49"
    unfolding nearest_example_back nearest_example_back_ten ..
  have d2: "js_div (Fin (2251799813685249 / 2 ^ 49)) (Fin 25) = Fin (5764607523034237 / 2 ^ 55)"
  proof -
    have "(0::real) \<le> 2251799813685249 / 2 ^ 49" "(2251799813685249::real) / 2 ^ 49 \<le> 25"
      "(0::real) < 25" by simp_all
    from js_div_duration [OF this] show ?thesis by (simp only: nearest_example_returned)
  qed
  have bw: "seekBackward (seekForward s) =
      (seek (Fin (2251799813685249 / 2 ^ 49)) (seekForward s))
        \<lparr>videoSeek := Fin (5764607523034237 / 2 ^ 55)\<rparr>"
    using seekBackward_rounded [OF dur' _ dbl pos'] unfolding B d2 by simp
  show ?thesis
    using ref ref' by (simp add: bw, simp add: fw seek_def emit_def playerRef_def)
qed

section \<open>The auto-hide timer\<close>

text \<open>
  Handles are handed out in increasing order, so in every state the events can reach, no
  pending timer has the handle that \<open>setTimeout\<close> returns next.
\<close>

lemma fresh_handler: "fresh s \<Longrightarrow> fresh (handler p d e s)"
  by (cases e)
     (auto simp add: fresh_def list_all_iff eval_defs onDimensionsChange_def rootSetStyle_def
        scrollCall_def less_Suc_eq
      split: option.splits slider_value.splits timer_callback.splits)

lemma fresh_run: "fresh (run p d es)"
proof -
  have "fresh (foldl (dispatch p d) s es)" if "fresh s" for s
    using that
  proof (induction es arbitrary: s)
    case Nil
    then show ?case by simp
  next
    case (Cons e es)
    have "fresh (dispatch p d s e)"
      using Cons.prems fresh_handler [of s p d e] by (simp add: dispatch_def)
    then show ?case using Cons.IH by simp
  qed
  moreover have "fresh (mount p d)"
    by (simp add: fresh_def mount_def)
  ultimately show ?thesis by (simp add: run_def)
qed

text \<open>
  Claim C3 says that at most one hide timer is pending in every reachable state, every
  arming operation cancelling the previous timer first. \<open>videoAreaClicked\<close> does cancel
  before it arms; \<open>onReady\<close> and \<open>onTouchEnd\<close> arm without cancelling. A tap on the
  video area before the first frame, followed by the first frame, leaves two hide timers
  pending; and so do two touches on the controls that overlap (two touch-starts, then two
  touch-ends).
\<close>

theorem ready_after_tap_leaves_two_hide_timers:
  "hideTimers (run withControls phone [VideoAreaPress, ReadyForDisplay]) =
     [\<lparr>handle = 1, delay = 3000, callback = HideControls\<rparr>,
      \<lparr>handle = 2, delay = 3000, callback = HideControls\<rparr>]
   \<and> hideTimers (run withControls phone
       [ReadyForDisplay, ControlsTouchStart, ControlsTouchStart,
        ControlsTouchEnd, ControlsTouchEnd]) =
     [\<lparr>handle = 2, delay = 3000, callback = HideControls\<rparr>,
      \<lparr>handle = 3, delay = 3000, callback = HideControls\<rparr>]"
  by (simp add: eval_defs)

section \<open>Unmounting\<close>

text \<open>
  Claim C4 as stated fails: the handles of the two 100 ms timers are never kept, and the
  cleanup does not cancel them. After the play button has restarted ended media, or after
  full screen has been left, the unmount leaves the 100 ms timer pending.
\<close>

theorem grace_timers_survive_cleanup:
  "pending (run withControls phone
      [Loaded (Fin 120), ReadyForDisplay, Ended, PlayPausePress, Unmounted]) =
     [\<lparr>handle = 2, delay = 100, callback = ResumePlaying\<rparr>]
   \<and> pending (run withControls phone
      [ReadyForDisplay, FullScreenPress, FullScreenPress, Unmounted]) =
     [\<lparr>handle = 2, delay = 100, callback = LockPortrait\<rparr>]"
  by (simp add: eval_defs)

lemma cleanup_silent:
  "(\<forall>h. e \<noteq> TimerFired h) \<Longrightarrow> dispatch p d (cleanup s) e = cleanup s"
  by (cases e)
     (simp_all add: dispatch_def cleanup_def onGetVolume_def emit_def videoRendered_def
        controlsRendered_def Let_def timerSet_def clearHideControlsTimer_def clearTimeout_def
      split: option.splits)

text \<open>
  Claim C4, amended. The cleanup clears the liveness flag, removes the volume listener
  and the dimension listener, and cancels the one timer whose handle \<open>hideControlsTimer\<close>
  holds; every other pending timer stays pending. After it, no event but a timer that
  fires changes the state: the subscriptions deliver nothing, the \<open>getVolume\<close> promise is
  ignored, and nothing is rendered.
\<close>

theorem cleanup_releases:
  "\<not> isActive (cleanup s) \<and> \<not> volumeListener (cleanup s) \<and> \<not> dimensionsListener (cleanup s)
   \<and> effects (cleanup s) = effects s @ [RemoveVolumeListener, RemoveDimensionsListener]
   \<and> pending (cleanup s) =
       (if timerSet s then filter (\<lambda>t. Some (handle t) \<noteq> hideControlsTimer s) (pending s)
        else pending s)
   \<and> (\<forall>e. (\<forall>h. e \<noteq> TimerFired h) \<longrightarrow> dispatch p d (cleanup s) e = cleanup s)"
proof -
  have flags:
    "\<not> isActive (cleanup s) \<and> \<not> volumeListener (cleanup s) \<and> \<not> dimensionsListener (cleanup s)"
    by (simp add: cleanup_def emit_def Let_def timerSet_def clearHideControlsTimer_def
          clearTimeout_def split: option.splits)
  have calls: "effects (cleanup s) = effects s @ [RemoveVolumeListener, RemoveDimensionsListener]"
    by (simp add: cleanup_def emit_def Let_def timerSet_def clearHideControlsTimer_def
          clearTimeout_def split: option.splits)
  have timers: "pending (cleanup s) =
       (if timerSet s then filter (\<lambda>t. Some (handle t) \<noteq> hideControlsTimer s) (pending s)
        else pending s)"
    by (auto simp add: cleanup_def emit_def Let_def timerSet_def clearHideControlsTimer_def
          clearTimeout_def split: option.splits)
  from flags calls timers cleanup_silent show ?thesis by blast
qed

theorem cleanup_releases_witness:
  "pending replaying =
     [\<lparr>handle = 1, delay = 3000, callback = HideControls\<rparr>,
      \<lparr>handle = 2, delay = 100, callback = ResumePlaying\<rparr>]
   \<and> hideControlsTimer replaying = Some 1
   \<and> \<not> isActive (cleanup replaying) \<and> \<not> volumeListener (cleanup replaying)
   \<and> \<not> dimensionsListener (cleanup replaying)
   \<and> pending (cleanup replaying) = [\<lparr>handle = 2, delay = 100, callback = ResumePlaying\<rparr>]
   \<and> dispatch withControls phone (cleanup replaying) (VolumeChanged (Fin 1)) = cleanup replaying
   \<and> dispatch withControls phone (cleanup replaying) (DimensionsChanged (Fin 800) (Fin 400))
       = cleanup replaying
   \<and> dispatch withControls phone (cleanup replaying) PlayPausePress = cleanup replaying"
proof -
  have p: "pending replaying =
     [\<lparr>handle = 1, delay = 3000, callback = HideControls\<rparr>,
      \<lparr>handle = 2, delay = 100, callback = ResumePlaying\<rparr>]"
    by (simp add: replaying_def eval_defs)
  have h: "hideControlsTimer replaying = Some 1"
    by (simp add: replaying_def eval_defs)
  have t: "timerSet replaying"
    using h by (simp add: timerSet_def)
  show ?thesis
    using cleanup_releases [of replaying withControls phone] p h t by simp
qed

section \<open>Play and pause\<close>

lemma find_append_None: "find P xs = None \<Longrightarrow> find P (xs @ ys) = find P ys"
  by (induction xs) (auto split: if_splits)

text \<open>The play button is rendered together with \<open>Video\<close>, so the decoder ref is there.\<close>

lemma controlsRendered_playerRef: "controlsRendered p s \<Longrightarrow> playerRef s"
  by (simp add: controlsRendered_def videoRendered_def playerRef_def)

lemma ended_facts:
  "videoSeek ended = Fin 1 \<and> playerRef ended \<and> nextHandle ended = 2 \<and> \<not> isPlaying ended"
  by (simp add: ended_def eval_defs)

lemma halfway_playing: "videoSeek halfway \<noteq> Fin 1 \<and> isPlaying halfway"
  by (simp add: halfway_def eval_defs)

text \<open>
  Claim C5. In a state where the decoder is mounted and the timer handles are fresh (as
  they are whenever the play button can be pressed): when \<open>videoSeek\<close> is 1,
  \<open>handlePlayPause\<close> sets it to 0, issues the decoder seek to 0, leaves \<open>isPlaying\<close> as it
  is and arms a 100 ms timer, and \<open>isPlaying\<close> becomes true when that timer fires, the
  seek having been issued before; when \<open>videoSeek\<close> is not 1, it flips \<open>isPlaying\<close>,
  issues no call, arms no timer and leaves \<open>videoSeek\<close> alone.
\<close>

theorem handlePlayPause_restart_or_flip:
  "\<lbrakk>playerRef s; fresh s\<rbrakk> \<Longrightarrow>
   (videoSeek s = Fin 1 \<longrightarrow>
      videoSeek (handlePlayPause s) = Fin 0
    \<and> effects (handlePlayPause s) = effects s @ [Seek (Fin 0)]
    \<and> isPlaying (handlePlayPause s) = isPlaying s
    \<and> pending (handlePlayPause s) =
        pending s @ [\<lparr>handle = nextHandle s, delay = 100, callback = ResumePlaying\<rparr>]
    \<and> isPlaying (fire (nextHandle s) (handlePlayPause s))
    \<and> effects (fire (nextHandle s) (handlePlayPause s)) = effects s @ [Seek (Fin 0)])
   \<and> (videoSeek s \<noteq> Fin 1 \<longrightarrow>
      isPlaying (handlePlayPause s) = (\<not> isPlaying s)
    \<and> effects (handlePlayPause s) = effects s
    \<and> videoSeek (handlePlayPause s) = videoSeek s
    \<and> pending (handlePlayPause s) = pending s)"
proof -
  assume ref: "playerRef s" and fr: "fresh s"
  have unused: "find (\<lambda>t. handle t = nextHandle s) (pending s) = None"
    using fr by (auto simp add: fresh_def list_all_iff find_None_iff)
  have found: "find (\<lambda>t. handle t = nextHandle s)
        (pending s @ [\<lparr>handle = nextHandle s, delay = 100, callback = ResumePlaying\<rparr>])
      = Some \<lparr>handle = nextHandle s, delay = 100, callback = ResumePlaying\<rparr>"
    using unused by (simp add: find_append_None)
  have restart: "videoSeek (handlePlayPause s) = Fin 0
    \<and> effects (handlePlayPause s) = effects s @ [Seek (Fin 0)]
    \<and> isPlaying (handlePlayPause s) = isPlaying s
    \<and> pending (handlePlayPause s) =
        pending s @ [\<lparr>handle = nextHandle s, delay = 100, callback = ResumePlaying\<rparr>]"
    if "videoSeek s = Fin 1"
    using that ref
    by (simp add: handlePlayPause_def js_eq_def seek_def emit_def setTimeout_def playerRef_def)
  have later: "isPlaying (fire (nextHandle s) (handlePlayPause s))
    \<and> effects (fire (nextHandle s) (handlePlayPause s)) = effects s @ [Seek (Fin 0)]"
    if "videoSeek s = Fin 1"
    using restart [OF that] found
    by (simp add: fire_def runCallback_def clearTimeout_def)
  have flip: "isPlaying (handlePlayPause s) = (\<not> isPlaying s)
    \<and> effects (handlePlayPause s) = effects s
    \<and> videoSeek (handlePlayPause s) = videoSeek s
    \<and> pending (handlePlayPause s) = pending s"
    if "videoSeek s \<noteq> Fin 1"
    using that by (simp add: handlePlayPause_def js_eq_def)
  from restart later flip show ?thesis by blast
qed

theorem handlePlayPause_restart_or_flip_witness:
  "playerRef ended \<and> fresh ended \<and> videoSeek ended = Fin 1
   \<and> videoSeek (handlePlayPause ended) = Fin 0
   \<and> effects (handlePlayPause ended) = effects ended @ [Seek (Fin 0)]
   \<and> \<not> isPlaying (handlePlayPause ended)
   \<and> isPlaying (fire 2 (handlePlayPause ended))
   \<and> playerRef halfway \<and> fresh halfway \<and> videoSeek halfway \<noteq> Fin 1
   \<and> isPlaying halfway \<and> \<not> isPlaying (handlePlayPause halfway)
   \<and> effects (handlePlayPause halfway) = effects halfway"
proof -
  have e: "fresh ended"
    by (simp add: ended_def fresh_run)
  have h: "fresh halfway"
    by (simp add: halfway_def fresh_run)
  show ?thesis
    using handlePlayPause_restart_or_flip [of ended] handlePlayPause_restart_or_flip [of halfway]
      e h ended_facts halfway_playing halfway_playerRef
    by simp
qed

section \<open>Progress while the seek bar is dragged\<close>

text \<open>
  Claim C6. An \<open>onProgress\<close> event delivered while \<open>isSeekBarBusy\<close> is true leaves
  \<open>videoSeek\<close> as it is (and the seek bar busy).
\<close>

theorem onProgress_busy_keeps_seek:
  "isSeekBarBusy s \<Longrightarrow>
   videoSeek (onProgress data s) = videoSeek s \<and> isSeekBarBusy (onProgress data s)"
  by (simp add: onProgress_def Let_def)

theorem onProgress_busy_keeps_seek_witness:
  "isSeekBarBusy (onSeekBarSlidingStart halfway)
   \<and> videoSeek
       (onProgress \<lparr>currentTime = Fin 90, playableDuration = Fin 120, seekableDuration = Fin 120\<rparr>
          (onSeekBarSlidingStart halfway)) = Fin (1 / 2)"
proof -
  have busy: "isSeekBarBusy (onSeekBarSlidingStart halfway)"
    by (simp add: onSeekBarSlidingStart_def)
  have same: "videoSeek (onSeekBarSlidingStart halfway) = Fin (1 / 2)"
    using halfway_seek by (simp add: onSeekBarSlidingStart_def)
  show ?thesis
    using onProgress_busy_keeps_seek [OF busy] busy same by simp
qed

section \<open>The first frame\<close>

text \<open>
  Claim C7 as stated fails: \<open>onReady\<close> does not touch \<open>isLoading\<close>. After the first frame
  of a freshly mounted player the loading flag is still set.
\<close>

theorem onReady_keeps_loading:
  "isLoading (run withControls phone [ReadyForDisplay])"
  by (simp add: eval_defs)

text \<open>
  Claim C7, amended. \<open>onReady\<close> sets \<open>isVideoReady\<close>, shows the controls and arms the
  3000 ms hide timer, whose handle it stores; it leaves the loading flag as it is.
\<close>

theorem onReady_shows_controls:
  "isLoading (onReady s) = isLoading s
   \<and> isVideoReady (onReady s) \<and> showControls (onReady s)
   \<and> pending (onReady s) =
       pending s @ [\<lparr>handle = nextHandle s, delay = 3000, callback = HideControls\<rparr>]
   \<and> hideControlsTimer (onReady s) = Some (nextHandle s)"
  by (simp add: onReady_def armHideControlsTimer_def setTimeout_def)

section \<open>A duration of zero\<close>

text \<open>
  Claim C8 as stated fails: no seek computation guards its division. A progress event
  with \<open>currentTime\<close> 0 and \<open>seekableDuration\<close> 0 sets \<open>videoSeek\<close> to NaN.
\<close>

theorem onProgress_zero_duration_NaN:
  "videoSeek (run withControls phone
      [Progress \<lparr>currentTime = Fin 0, playableDuration = Fin 0, seekableDuration = Fin 0\<rparr>])
     = NaN"
  by (simp add: eval_defs)

text \<open>
  Claim C8, amended. With a duration of 0 and a finite \<open>videoSeek\<close>, \<open>seekForward\<close> and
  \<open>seekBackward\<close> set \<open>videoSeek\<close> to 0: they divide by the duration, and their clamp
  branch then replaces the quotient. \<open>onProgress\<close>, when the seek bar is not busy, stores
  the quotient as it is: for a \<open>seekableDuration\<close> of 0 that is NaN when \<open>currentTime\<close> is
  0, and an infinity otherwise.
\<close>

theorem zero_duration_seek:
  "(videoDuration s = Fin 0 \<longrightarrow> videoSeek s = Fin f \<longrightarrow>
      videoSeek (seekForward s) = Fin 0 \<and> videoSeek (seekBackward s) = Fin 0)
   \<and> (\<not> isSeekBarBusy s \<longrightarrow> seekableDuration data = Fin 0 \<longrightarrow> currentTime data = Fin c \<longrightarrow>
      videoSeek (onProgress data s) = (if c = 0 then NaN else if 0 < c then PInf else NInf))"
  by (simp add: seekForward_def seekBackward_def onProgress_def js_gt_def js_sub_def Let_def
        js_round_exact)

theorem zero_duration_seek_witness:
  "videoSeek (seekForward (mount withControls phone)) = Fin 0
   \<and> videoSeek (seekBackward (mount withControls phone)) = Fin 0
   \<and> videoSeek
       (onProgress \<lparr>currentTime = Fin 0, playableDuration = Fin 0, seekableDuration = Fin 0\<rparr>
          (mount withControls phone)) = NaN
   \<and> videoSeek
       (onProgress \<lparr>currentTime = Fin 5, playableDuration = Fin 0, seekableDuration = Fin 0\<rparr>
          (mount withControls phone)) = PInf"
  using zero_duration_seek [of "mount withControls phone" 0
      "\<lparr>currentTime = Fin 0, playableDuration = Fin 0, seekableDuration = Fin 0\<rparr>" 0]
    zero_duration_seek [of "mount withControls phone" 0
      "\<lparr>currentTime = Fin 5, playableDuration = Fin 0, seekableDuration = Fin 0\<rparr>" 5]
  by (simp add: mount_def)

section \<open>Buffering\<close>

text \<open>
  Claim C9. \<open>onBuffer\<close> with payload \<open>b\<close> sets the loading flag to true, and changes
  nothing else, when \<open>(b && !isLoading) || (!b && isLoading && isVideoReady)\<close>; in every
  other case it changes nothing at all.
\<close>

theorem onBuffer_loading:
  "((b \<and> \<not> isLoading s) \<or> (\<not> b \<and> isLoading s \<and> isVideoReady s)
      \<longrightarrow> onBuffer b s = s\<lparr>isLoading := True\<rparr>)
   \<and> (\<not> ((b \<and> \<not> isLoading s) \<or> (\<not> b \<and> isLoading s \<and> isVideoReady s))
      \<longrightarrow> onBuffer b s = s)"
  by (simp add: onBuffer_def)

lemma halfway_loading: "\<not> isLoading halfway"
  by (simp add: halfway_def eval_defs)

theorem onBuffer_loading_witness:
  "onBuffer True halfway = halfway\<lparr>isLoading := True\<rparr>
   \<and> onBuffer False halfway = halfway
   \<and> onBuffer False (onReady (mount withControls phone))
       = (onReady (mount withControls phone))\<lparr>isLoading := True\<rparr>
   \<and> onBuffer False (mount withControls phone) = mount withControls phone"
proof -
  have ready: "isLoading (onReady (mount withControls phone))
      \<and> isVideoReady (onReady (mount withControls phone))"
    by (simp add: onReady_def armHideControlsTimer_def setTimeout_def mount_def)
  have start: "isLoading (mount withControls phone) \<and> \<not> isVideoReady (mount withControls phone)"
    by (simp add: mount_def)
  show ?thesis
    using onBuffer_loading [of True halfway] onBuffer_loading [of False halfway]
      onBuffer_loading [of False "onReady (mount withControls phone)"]
      onBuffer_loading [of False "mount withControls phone"]
      halfway_loading ready start
    by simp
qed

text \<open>The flag is never cleared by \<open>onBuffer\<close>, and it is raised only by a buffering start.\<close>

lemma onBuffer_raises_only: "isLoading (onBuffer b s) = (isLoading s \<or> b)"
  by (auto simp add: onBuffer_def)

section \<open>The seek bar\<close>

text \<open>
  Claim C10. \<open>onSeekBarChange\<close> called with a number changes nothing: no decoder seek, the
  same \<open>videoSeek\<close>. Called with an array, it issues a decoder seek to \<open>val[0]\<close> times the
  duration (the decoder being mounted) and sets \<open>videoSeek\<close> to \<open>val[0]\<close>.
\<close>

theorem onSeekBarChange_scalar_or_thumbs:
  "onSeekBarChange (Scalar x) s = s
   \<and> (playerRef s \<longrightarrow>
        effects (onSeekBarChange (Thumbs v vs) s) = effects s @ [Seek (js_mul v (videoDuration s))]
      \<and> videoSeek (onSeekBarChange (Thumbs v vs) s) = v)"
  by (simp add: onSeekBarChange_def seek_def emit_def)

theorem onSeekBarChange_scalar_or_thumbs_witness:
  "onSeekBarChange (Scalar (Fin (1 / 4))) halfway = halfway
   \<and> effects (onSeekBarChange (Thumbs (Fin (1 / 4)) []) halfway) = effects halfway @ [Seek (Fin 30)]
   \<and> videoSeek (onSeekBarChange (Thumbs (Fin (1 / 4)) []) halfway) = Fin (1 / 4)"
  using onSeekBarChange_scalar_or_thumbs [of "Fin (1 / 4)" halfway "Fin (1 / 4)" "[]"]
    halfway_playerRef halfway_duration
  by (simp add: js_round_exact)

end
